theory Spec2Isabelle
  imports Complex_Main "HOL-Library.Word"
begin

section \<open>Binary64 arithmetic\<close>

text \<open>
  The program computes with C++ \<^verbatim>\<open>double\<close>. A \<^verbatim>\<open>double\<close> is modelled by its value:
  a finite real, one of the two infinities, or NaN. Every arithmetic operation computes
  the exact real result and rounds it once to binary64 (53-bit significand, exponents
  from -1022 to 1023, gradual underflow, round to nearest with ties to even), as IEEE 754
  prescribes and as a C++ compiler does that evaluates each \<^verbatim>\<open>double\<close> operation in
  \<^verbatim>\<open>double\<close> precision and fuses no multiplication with an addition. The two zeros
  are identified: the program never divides by a computed zero and never inspects
  the sign of a zero.
\<close>

datatype double = Finite real | PInf | NInf | NaN

text \<open>Nearest integer, a tie going to the even neighbour.\<close>

definition rne :: "real \<Rightarrow> int" where
  "rne q = (if q - of_int \<lfloor>q\<rfloor> < 1 / 2 then \<lfloor>q\<rfloor>
            else if 1 / 2 < q - of_int \<lfloor>q\<rfloor> then \<lfloor>q\<rfloor> + 1
            else if even \<lfloor>q\<rfloor> then \<lfloor>q\<rfloor> else \<lfloor>q\<rfloor> + 1)"

text \<open>
  The binary exponent of a nonzero real: \<open>ilog2 q\<close> is the integer \<open>e\<close> with
  \<open>2\<^sup>e \<le> \<bar>q\<bar> < 2\<^sup>e\<^sup>+\<^sup>1\<close>, found by halving (from 1 upwards) or doubling (below 1).
\<close>

function log2_up :: "real \<Rightarrow> int" where
  "log2_up q = (if q < 2 then 0 else log2_up (q / 2) + 1)"
  by pat_completeness auto
termination
proof (relation "measure (\<lambda>q. nat \<lfloor>q\<rfloor>)")
  fix q :: real
  assume "\<not> q < 2"
  then have "q / 2 \<le> q - 1" by simp
  then have "\<lfloor>q / 2\<rfloor> \<le> \<lfloor>q - 1\<rfloor>" by (rule floor_mono)
  moreover have "2 \<le> \<lfloor>q\<rfloor>" using \<open>\<not> q < 2\<close> by (simp add: le_floor_iff)
  ultimately show "(q / 2, q) \<in> measure (\<lambda>q. nat \<lfloor>q\<rfloor>)" by simp
qed simp

function log2_down :: "real \<Rightarrow> int" where
  "log2_down q = (if q \<le> 0 \<or> 1 \<le> q then 0 else log2_down (q * 2) - 1)"
  by pat_completeness auto
termination
proof (relation "measure (\<lambda>q. nat \<lceil>1 / q\<rceil>)")
  fix q :: real
  assume "\<not> (q \<le> 0 \<or> 1 \<le> q)"
  then have q: "0 < q" "q < 1" by auto
  define x where "x = 1 / q"
  have x: "1 < x" using q by (simp add: x_def)
  have h: "1 / (q * 2) = x / 2" by (simp add: x_def)
  have "\<lceil>x / 2\<rceil> < \<lceil>x\<rceil>"
  proof (cases "x \<le> 2")
    case True
    then have "\<lceil>x / 2\<rceil> \<le> 1" by (simp add: ceiling_le_iff)
    moreover have "1 < \<lceil>x\<rceil>" using x by (simp add: less_ceiling_iff)
    ultimately show ?thesis by linarith
  next
    case False
    then have "x / 2 \<le> x - 1" by simp
    then have "\<lceil>x / 2\<rceil> \<le> \<lceil>x - 1\<rceil>" by (rule ceiling_mono)
    then show ?thesis by simp
  qed
  moreover have "0 < \<lceil>x\<rceil>" using x by (simp add: less_ceiling_iff)
  ultimately have "nat \<lceil>1 / (q * 2)\<rceil> < nat \<lceil>1 / q\<rceil>"
    unfolding h x_def[symmetric] by linarith
  then show "(q * 2, q) \<in> measure (\<lambda>q. nat \<lceil>1 / q\<rceil>)" by simp
qed simp

declare log2_up.simps [simp del] log2_down.simps [simp del]

definition ilog2 :: "real \<Rightarrow> int" where
  "ilog2 q = (if 1 \<le> \<bar>q\<bar> then log2_up \<bar>q\<bar> else log2_down \<bar>q\<bar>)"

text \<open>
  The spacing of the binary64 numbers around \<open>q\<close>: 52 binary places below the exponent
  of \<open>q\<close>, the exponent never below -1022 (the subnormal numbers share the spacing
  \<open>2\<^sup>-\<^sup>1\<^sup>0\<^sup>7\<^sup>4\<close>).
\<close>

definition ulp :: "real \<Rightarrow> real" where
  "ulp q = 2 powi (max (ilog2 q) (- 1022) - 52)"

definition round_to :: "real \<Rightarrow> real \<Rightarrow> real" where
  "round_to u q = of_int (rne (q / u)) * u"

text \<open>Rounding an exact result to binary64; a result of magnitude \<open>2\<^sup>1\<^sup>0\<^sup>2\<^sup>4\<close> overflows.\<close>

definition fl :: "real \<Rightarrow> double" where
  "fl q = (if q = 0 then Finite 0
           else if 2 powi 1024 \<le> \<bar>round_to (ulp q) q\<bar> then (if 0 < q then PInf else NInf)
           else Finite (round_to (ulp q) q))"

text \<open>A real is a binary64 number when rounding leaves it alone.\<close>

definition representable :: "real \<Rightarrow> bool" where
  "representable q = (fl q = Finite q)"

fun is_double :: "double \<Rightarrow> bool" where
  "is_double (Finite q) = representable q"
| "is_double _ = True"

fun dneg :: "double \<Rightarrow> double" where
  "dneg (Finite a) = Finite (- a)"
| "dneg PInf = NInf"
| "dneg NInf = PInf"
| "dneg NaN = NaN"

fun dadd :: "double \<Rightarrow> double \<Rightarrow> double" where
  "dadd (Finite a) (Finite b) = fl (a + b)"
| "dadd NaN _ = NaN"
| "dadd _ NaN = NaN"
| "dadd PInf NInf = NaN"
| "dadd NInf PInf = NaN"
| "dadd PInf _ = PInf"
| "dadd _ PInf = PInf"
| "dadd NInf _ = NInf"
| "dadd _ NInf = NInf"

definition dsub :: "double \<Rightarrow> double \<Rightarrow> double" where
  "dsub a b = dadd a (dneg b)"

text \<open>The sign of an infinite product; an infinity times zero is NaN.\<close>

fun dsgn :: "double \<Rightarrow> int" where
  "dsgn (Finite a) = (if a = 0 then 0 else if 0 < a then 1 else - 1)"
| "dsgn PInf = 1"
| "dsgn NInf = - 1"
| "dsgn NaN = 0"

fun dmul :: "double \<Rightarrow> double \<Rightarrow> double" where
  "dmul (Finite a) (Finite b) = fl (a * b)"
| "dmul NaN _ = NaN"
| "dmul _ NaN = NaN"
| "dmul a b = (if dsgn a * dsgn b = 0 then NaN else if 0 < dsgn a * dsgn b then PInf else NInf)"

text \<open>
  Division. A zero divisor is read as \<open>+0\<close>: the program's only divisor is the converted
  integer constant \<^verbatim>\<open>kMaxIterations\<close>, and a converted integer zero is \<open>+0\<close>.
\<close>

fun ddiv :: "double \<Rightarrow> double \<Rightarrow> double" where
  "ddiv (Finite a) (Finite b) =
     (if b = 0 then (if a = 0 then NaN else if 0 < a then PInf else NInf) else fl (a / b))"
| "ddiv NaN _ = NaN"
| "ddiv _ NaN = NaN"
| "ddiv (Finite a) _ = Finite 0"
| "ddiv a (Finite b) = (if 0 \<le> b then a else dneg a)"
| "ddiv _ _ = NaN"

text \<open>The comparison \<^verbatim>\<open>a > b\<close>: false as soon as an operand is NaN.\<close>

fun dgt :: "double \<Rightarrow> double \<Rightarrow> bool" where
  "dgt (Finite a) (Finite b) = (b < a)"
| "dgt NaN _ = False"
| "dgt _ NaN = False"
| "dgt PInf b = (b \<noteq> PInf)"
| "dgt a NInf = (a \<noteq> NInf)"
| "dgt _ _ = False"

text \<open>The conversion of an \<^verbatim>\<open>int\<close> to \<^verbatim>\<open>double\<close> rounds like every operation.\<close>

definition double_of_int :: "int \<Rightarrow> double" where
  "double_of_int i = fl (of_int i)"

text \<open>
  The conversion \<^verbatim>\<open>(int)d\<close> truncates towards zero. It is undefined when \<open>d\<close> is
  not finite or the truncated value is no 32-bit \<^verbatim>\<open>int\<close>; the model reports that.
\<close>

datatype error = DivisionByZero | IntOutOfRange | IndexOutOfRange | PixelOutOfRange | ThreadCreationFailed

fun int_of_double :: "double \<Rightarrow> error + int" where
  "int_of_double (Finite a) =
     (if - (2 ^ 31) \<le> (if 0 \<le> a then \<lfloor>a\<rfloor> else \<lceil>a\<rceil>) \<and> (if 0 \<le> a then \<lfloor>a\<rfloor> else \<lceil>a\<rceil>) < 2 ^ 31
      then Inr (if 0 \<le> a then \<lfloor>a\<rfloor> else \<lceil>a\<rceil>) else Inl IntOutOfRange)"
| "int_of_double _ = Inl IntOutOfRange"

section \<open>The program\<close>

definition IMAGE_WIDTH :: int where
  "IMAGE_WIDTH = 960"

definition IMAGE_HEIGHT :: int where
  "IMAGE_HEIGHT = 540"

definition kMaxIterations :: int where
  "kMaxIterations = 1000"

subsection \<open>The iteration kernel\<close>

text \<open>
  \<^verbatim>\<open>ComputeMandelbrot\<close>: the loop \<^verbatim>\<open>for (counter = 0; counter < kMaxIterations; ++counter)\<close>
  with its state \<open>(z_real, z_imag, counter)\<close>. The new \<open>z_imag\<close> is computed from
  the old \<open>z_real\<close>, and the new \<open>z_real\<close> from the squares taken before the update.
\<close>

function ComputeMandelbrot_loop :: "double \<Rightarrow> double \<Rightarrow> double \<Rightarrow> double \<Rightarrow> int \<Rightarrow> int" where
  "ComputeMandelbrot_loop c_real c_imag z_real z_imag counter =
     (if counter < kMaxIterations then
        (if dgt (dadd (dmul z_real z_real) (dmul z_imag z_imag)) (Finite 4) then counter
         else ComputeMandelbrot_loop c_real c_imag
                (dadd (dsub (dmul z_real z_real) (dmul z_imag z_imag)) c_real)
                (dadd (dmul (dmul (Finite 2) z_real) z_imag) c_imag)
                (counter + 1))
      else kMaxIterations)"
  by pat_completeness auto
termination
  by (relation "measure (\<lambda>(c_real, c_imag, z_real, z_imag, counter). nat (kMaxIterations - counter))") auto

declare ComputeMandelbrot_loop.simps [simp del]

definition ComputeMandelbrot :: "double \<Rightarrow> double \<Rightarrow> int" where
  "ComputeMandelbrot c_real c_imag = ComputeMandelbrot_loop c_real c_imag c_real c_imag 0"

subsection \<open>The palette\<close>

text \<open>
  An \<^verbatim>\<open>sf::Color\<close> has four 8-bit channels; its constructor takes \<^verbatim>\<open>Uint8\<close> arguments,
  so the \<^verbatim>\<open>int\<close> values \<open>r\<close>, \<open>g\<close>, \<open>b\<close> of \<^verbatim>\<open>GetColor\<close> are reduced modulo 256, and the
  alpha channel defaults to 255.
\<close>

datatype sf_Color = Color (red: "8 word") (green: "8 word") (blue: "8 word") (alpha: "8 word")

definition GetColor_t :: "int \<Rightarrow> double" where
  "GetColor_t iterations = ddiv (double_of_int iterations) (double_of_int kMaxIterations)"

text \<open>The three \<^verbatim>\<open>double\<close> expressions of \<^verbatim>\<open>GetColor\<close>, multiplied from left to right.\<close>

definition GetColor_r :: "double \<Rightarrow> double" where
  "GetColor_r t =
     dmul (dmul (dmul (dmul (dmul (double_of_int 9) (dsub (double_of_int 1) t)) t) t) t)
       (double_of_int 255)"

definition GetColor_g :: "double \<Rightarrow> double" where
  "GetColor_g t =
     dmul (dmul (dmul (dmul (dmul (double_of_int 15) (dsub (double_of_int 1) t))
       (dsub (double_of_int 1) t)) t) t) (double_of_int 255)"

definition GetColor_b :: "double \<Rightarrow> double" where
  "GetColor_b t =
     dmul (dmul (dmul (dmul (dmul (Finite (17 / 2)) (dsub (double_of_int 1) t))
       (dsub (double_of_int 1) t)) (dsub (double_of_int 1) t)) t) (double_of_int 255)"

text \<open>The \<^verbatim>\<open>int\<close> locals \<open>r\<close>, \<open>g\<close>, \<open>b\<close> of \<^verbatim>\<open>GetColor\<close>, before they are stored.\<close>

definition GetColor_rgb :: "int \<Rightarrow> error + int \<times> int \<times> int" where
  "GetColor_rgb iterations =
     (case int_of_double (GetColor_r (GetColor_t iterations)) of Inl e \<Rightarrow> Inl e | Inr r \<Rightarrow>
      case int_of_double (GetColor_g (GetColor_t iterations)) of Inl e \<Rightarrow> Inl e | Inr g \<Rightarrow>
      case int_of_double (GetColor_b (GetColor_t iterations)) of Inl e \<Rightarrow> Inl e | Inr b \<Rightarrow>
      Inr (r, g, b))"

definition GetColor :: "int \<Rightarrow> error + sf_Color" where
  "GetColor iterations =
     (case GetColor_rgb iterations of Inl e \<Rightarrow> Inl e
      | Inr (r, g, b) \<Rightarrow> Inr (Color (word_of_int r) (word_of_int g) (word_of_int b) 255))"

text \<open>
  The object: its array \<^verbatim>\<open>colors\<close> of \<^verbatim>\<open>kMaxIterations + 1\<close> entries, default-constructed
  (opaque black) and then filled by the constructor's loop.
\<close>

record Mandelbrot =
  colors :: "sf_Color list"

function Mandelbrot_loop :: "int \<Rightarrow> sf_Color list \<Rightarrow> error + sf_Color list" where
  "Mandelbrot_loop i cs =
     (if i \<le> kMaxIterations then
        (case GetColor i of Inl e \<Rightarrow> Inl e
         | Inr c \<Rightarrow> Mandelbrot_loop (i + 1) (cs[nat i := c]))
      else Inr cs)"
  by pat_completeness auto
termination
  by (relation "measure (\<lambda>(i, cs). nat (kMaxIterations + 1 - i))") auto

declare Mandelbrot_loop.simps [simp del]

definition Mandelbrot_new :: "error + Mandelbrot" where
  "Mandelbrot_new =
     (case Mandelbrot_loop 0 (replicate (nat (kMaxIterations + 1)) (Color 0 0 0 255)) of
        Inl e \<Rightarrow> Inl e | Inr cs \<Rightarrow> Inr \<lparr>colors = cs\<rparr>)"

subsection \<open>The image\<close>

text \<open>
  An \<^verbatim>\<open>sf::Image\<close> is a grid of \<open>size_x\<close> by \<open>size_y\<close> pixels. \<^verbatim>\<open>setPixel\<close> does not
  check its coordinates: outside the grid its behaviour is undefined, which the model
  reports as an error.
\<close>

record sf_Image =
  size_x :: nat
  size_y :: nat
  pixels :: "nat \<times> nat \<Rightarrow> sf_Color"

definition setPixel :: "sf_Image \<Rightarrow> int \<Rightarrow> int \<Rightarrow> sf_Color \<Rightarrow> error + sf_Image" where
  "setPixel img x y color =
     (if 0 \<le> x \<and> x < int (size_x img) \<and> 0 \<le> y \<and> y < int (size_y img)
      then Inr (img\<lparr>pixels := (pixels img)((nat x, nat y) := color)\<rparr>)
      else Inl PixelOutOfRange)"


subsection \<open>One slice\<close>

text \<open>
  \<^verbatim>\<open>UpdateImageSlice\<close>: the inner loop over the rows \<open>minY \<le> y < maxY\<close> of one column,
  adding \<open>zoom\<close> to \<open>c_imag\<close> after each pixel, inside the outer loop over the columns
  \<open>0 \<le> x < IMAGE_WIDTH\<close>, adding \<open>zoom\<close> to \<open>c_real\<close> after each column. The array
  access \<^verbatim>\<open>colors[value]\<close> is unchecked in the source; the model reports an index
  outside the array.
\<close>

function UpdateImageSlice_rows ::
  "Mandelbrot \<Rightarrow> double \<Rightarrow> double \<Rightarrow> int \<Rightarrow> double \<Rightarrow> int \<Rightarrow> int \<Rightarrow> sf_Image \<Rightarrow> error + sf_Image" where
  "UpdateImageSlice_rows mb zoom c_real x c_imag y maxY img =
     (if y < maxY then
        (if 0 \<le> ComputeMandelbrot c_real c_imag
              \<and> nat (ComputeMandelbrot c_real c_imag) < length (colors mb) then
           (case setPixel img x y (colors mb ! nat (ComputeMandelbrot c_real c_imag)) of
              Inl e \<Rightarrow> Inl e
            | Inr img' \<Rightarrow>
                UpdateImageSlice_rows mb zoom c_real x (dadd c_imag zoom) (y + 1) maxY img')
         else Inl IndexOutOfRange)
      else Inr img)"
  by pat_completeness auto
termination
  by (relation "measure (\<lambda>(mb, zoom, c_real, x, c_imag, y, maxY, img). nat (maxY - y))") auto

declare UpdateImageSlice_rows.simps [simp del]

function UpdateImageSlice_columns ::
  "Mandelbrot \<Rightarrow> double \<Rightarrow> double \<Rightarrow> int \<Rightarrow> int \<Rightarrow> double \<Rightarrow> int \<Rightarrow> sf_Image \<Rightarrow> error + sf_Image" where
  "UpdateImageSlice_columns mb zoom c_imag_start minY maxY c_real x img =
     (if x < IMAGE_WIDTH then
        (case UpdateImageSlice_rows mb zoom c_real x c_imag_start minY maxY img of
           Inl e \<Rightarrow> Inl e
         | Inr img' \<Rightarrow>
             UpdateImageSlice_columns mb zoom c_imag_start minY maxY (dadd c_real zoom) (x + 1) img')
      else Inr img)"
  by pat_completeness auto
termination
  by (relation "measure (\<lambda>(mb, zoom, c_imag_start, minY, maxY, c_real, x, img). nat (IMAGE_WIDTH - x))") auto

declare UpdateImageSlice_columns.simps [simp del]

definition c_real_start :: "double \<Rightarrow> double \<Rightarrow> double" where
  "c_real_start zoom offset_X =
     dadd (dsub (dmul (double_of_int 0) zoom)
                (dmul (ddiv (double_of_int IMAGE_WIDTH) (Finite 2)) zoom)) offset_X"

definition c_imag_start :: "double \<Rightarrow> double \<Rightarrow> int \<Rightarrow> double" where
  "c_imag_start zoom offset_Y minY =
     dadd (dsub (dmul (double_of_int minY) zoom)
                (dmul (ddiv (double_of_int IMAGE_HEIGHT) (Finite 2)) zoom)) offset_Y"

definition UpdateImageSlice ::
  "Mandelbrot \<Rightarrow> double \<Rightarrow> double \<Rightarrow> double \<Rightarrow> sf_Image \<Rightarrow> int \<Rightarrow> int \<Rightarrow> error + sf_Image" where
  "UpdateImageSlice mb zoom offset_X offset_Y img minY maxY =
     UpdateImageSlice_columns mb zoom (c_imag_start zoom offset_Y minY) minY maxY
       (c_real_start zoom offset_X) 0 img"

subsection \<open>The frame update\<close>

text \<open>
  \<^verbatim>\<open>STEP = IMAGE_HEIGHT / std::thread::hardware_concurrency()\<close>: the divisor is an
  \<^verbatim>\<open>unsigned int\<close>, so the division is an unsigned 32-bit one, and undefined for the
  divisor zero, which the library returns when it cannot tell the number of threads.
\<close>

definition compute_STEP :: "32 word \<Rightarrow> error + int" where
  "compute_STEP hardware_concurrency =
     (if hardware_concurrency = 0 then Inl DivisionByZero
      else Inr (uint ((word_of_int IMAGE_HEIGHT :: 32 word) div hardware_concurrency)))"

text \<open>
  The dispatch loop \<^verbatim>\<open>for (i = 0; i < IMAGE_HEIGHT; i += STEP)\<close> appends one thread per
  round, for the rows \<open>i \<le> y < min (i + STEP) IMAGE_HEIGHT\<close>. It need not end, so it is
  a partial function: \<open>None\<close> is the loop that runs forever. The height is a parameter
  here; the program's is \<open>IMAGE_HEIGHT\<close>.
\<close>

partial_function (option) dispatch :: "int \<Rightarrow> int \<Rightarrow> int \<Rightarrow> (int \<times> int) list \<Rightarrow> (int \<times> int) list option" where
  "dispatch height STEP i threads =
     (if i < height then dispatch height STEP (i + STEP) (threads @ [(i, min (i + STEP) height)])
      else Some threads)"

text \<open>
  Starting a thread can fail: the constructor of \<^verbatim>\<open>std::thread\<close> throws
  \<^verbatim>\<open>std::system_error\<close> when the platform starts no further thread, and nothing in
  \<^verbatim>\<open>UpdateImage\<close> catches it. \<open>dispatch_limited\<close> is the same loop on a platform that
  starts at most \<open>max_threads\<close> threads; every round adds a thread, so this loop always
  ends.
\<close>

function dispatch_limited ::
  "nat \<Rightarrow> int \<Rightarrow> int \<Rightarrow> int \<Rightarrow> (int \<times> int) list \<Rightarrow> error + (int \<times> int) list" where
  "dispatch_limited max_threads height STEP i threads =
     (if i < height then
        (if length threads < max_threads
         then dispatch_limited max_threads height STEP (i + STEP)
                (threads @ [(i, min (i + STEP) height)])
         else Inl ThreadCreationFailed)
      else Inr threads)"
  by pat_completeness auto
termination
  by (relation "measure (\<lambda>(max_threads, height, STEP, i, threads). max_threads - length threads)") auto

declare dispatch_limited.simps [simp del]

text \<open>
  The threads write rows that no other thread writes, and \<^verbatim>\<open>UpdateImage\<close> returns
  after joining all of them: the image it leaves is the one the slices leave when run
  one after the other.
\<close>

fun run_threads ::
  "Mandelbrot \<Rightarrow> double \<Rightarrow> double \<Rightarrow> double \<Rightarrow> (int \<times> int) list \<Rightarrow> sf_Image \<Rightarrow> error + sf_Image" where
  "run_threads mb zoom offset_X offset_Y [] img = Inr img"
| "run_threads mb zoom offset_X offset_Y ((minY, maxY) # threads) img =
     (case UpdateImageSlice mb zoom offset_X offset_Y img minY maxY of
        Inl e \<Rightarrow> Inl e
      | Inr img' \<Rightarrow> run_threads mb zoom offset_X offset_Y threads img')"

text \<open>
  \<^verbatim>\<open>UpdateImage\<close> with the value of \<^verbatim>\<open>hardware_concurrency()\<close> as a parameter. The result
  \<open>None\<close> means that the call does not return.
\<close>

definition UpdateImage ::
  "Mandelbrot \<Rightarrow> 32 word \<Rightarrow> double \<Rightarrow> double \<Rightarrow> double \<Rightarrow> sf_Image \<Rightarrow> (error + sf_Image) option" where
  "UpdateImage mb hardware_concurrency zoom offset_X offset_Y img =
     (case compute_STEP hardware_concurrency of
        Inl e \<Rightarrow> Some (Inl e)
      | Inr STEP \<Rightarrow>
          (case dispatch IMAGE_HEIGHT STEP 0 [] of
             None \<Rightarrow> None
           | Some threads \<Rightarrow> Some (run_threads mb zoom offset_X offset_Y threads img)))"

section \<open>Notions of the specification\<close>

subsection \<open>Slices\<close>

text \<open>
  The rows of a slice \<open>(minY, maxY)\<close>, and the slices the dispatch loop creates from
  row \<open>i\<close> on when \<open>STEP\<close> is positive (the loop as a total function, for that case).
\<close>

definition rows :: "int \<times> int \<Rightarrow> int set" where
  "rows s = {fst s ..< snd s}"

function slices_from :: "int \<Rightarrow> int \<Rightarrow> int \<Rightarrow> (int \<times> int) list" where
  "slices_from height STEP i =
     (if i < height \<and> 1 \<le> STEP then (i, min (i + STEP) height) # slices_from height STEP (i + STEP)
      else [])"
  by pat_completeness auto
termination
  by (relation "measure (\<lambda>(height, STEP, i). nat (height - i))") auto

declare slices_from.simps [simp del]

text \<open>
  Slices are contiguous from row \<open>a\<close> to row \<open>b\<close> when each is non-empty and starts at the
  row where its predecessor ends.
\<close>

fun contiguous :: "int \<Rightarrow> (int \<times> int) list \<Rightarrow> int \<Rightarrow> bool" where
  "contiguous a [] b = (a = b)"
| "contiguous a (s # ss) b = (fst s = a \<and> fst s < snd s \<and> contiguous (snd s) ss b)"

subsection \<open>The orbit of a point\<close>

text \<open>
  The specification's words for the kernel: the orbit starts at \<open>z = c\<close>; a step is
  escaped when \<open>z_real\<^sup>2 + z_imag\<^sup>2 > 4.0\<close>; otherwise \<open>z_imag\<close> becomes
  \<open>2 * z_real * z_imag + c_imag\<close> and \<open>z_real\<close> becomes \<open>r2 - i2 + c_real\<close>.
\<close>

definition escaped :: "double \<times> double \<Rightarrow> bool" where
  "escaped z = dgt (dadd (dmul (fst z) (fst z)) (dmul (snd z) (snd z))) (Finite 4)"

definition next_z :: "double \<Rightarrow> double \<Rightarrow> double \<times> double \<Rightarrow> double \<times> double" where
  "next_z c_real c_imag z =
     (dadd (dsub (dmul (fst z) (fst z)) (dmul (snd z) (snd z))) c_real,
      dadd (dmul (dmul (Finite 2) (fst z)) (snd z)) c_imag)"

definition orbit :: "double \<Rightarrow> double \<Rightarrow> nat \<Rightarrow> double \<times> double" where
  "orbit c_real c_imag n = (next_z c_real c_imag ^^ n) (c_real, c_imag)"

subsection \<open>The coordinates the slice loop gives a pixel\<close>






subsection \<open>The palette polynomials\<close>

text \<open>
  The specification's channel values before the floor, in exact real arithmetic, with
  \<open>t = i / MaxIterations\<close>.
\<close>

definition palette_t :: "int \<Rightarrow> real" where
  "palette_t i = of_int i / of_int kMaxIterations"

definition palette_r :: "int \<Rightarrow> real" where
  "palette_r i = 9 * (1 - palette_t i) * palette_t i ^ 3 * 255"

definition palette_g :: "int \<Rightarrow> real" where
  "palette_g i = 15 * (1 - palette_t i) ^ 2 * palette_t i ^ 2 * 255"

definition palette_b :: "int \<Rightarrow> real" where
  "palette_b i = 17 / 2 * (1 - palette_t i) ^ 3 * palette_t i * 255"

text \<open>A \<^verbatim>\<open>double\<close> is within \<open>d\<close> of a real \<open>x\<close> when it is finite and its value is.\<close>

definition approx :: "double \<Rightarrow> real \<Rightarrow> real \<Rightarrow> bool" where
  "approx a x d = (\<exists>r. a = Finite r \<and> \<bar>r - x\<bar> \<le> d)"

text \<open>The same, for a real known to lie between 0 and \<open>C\<close>.\<close>

definition approx_in :: "double \<Rightarrow> real \<Rightarrow> real \<Rightarrow> real \<Rightarrow> bool" where
  "approx_in a x C d = (approx a x d \<and> 0 \<le> x \<and> x \<le> C)"

subsection \<open>The palette as a table\<close>

text \<open>
  The values of \<open>(r, g, b)\<close> for the iteration counts 0 to 1000, in this order, in four
  blocks: the floors of the three palette polynomials.
\<close>

definition palette_block_0 :: "(int \<times> int \<times> int) list" where
  "palette_block_0 =
    [(0, 0, 0), (0, 0, 2), (0, 0, 4), (0, 0, 6), (0, 0, 8), (0, 0, 10), (0, 0, 12), (0, 0, 14),
     (0, 0, 16), (0, 0, 18), (0, 0, 21), (0, 0, 23), (0, 0, 25), (0, 0, 27), (0, 0, 29),
     (0, 0, 31), (0, 0, 33), (0, 1, 35), (0, 1, 36), (0, 1, 38), (0, 1, 40), (0, 1, 42),
     (0, 1, 44), (0, 1, 46), (0, 2, 48), (0, 2, 50), (0, 2, 52), (0, 2, 53), (0, 2, 55),
     (0, 3, 57), (0, 3, 59), (0, 3, 61), (0, 3, 62), (0, 3, 64), (0, 4, 66), (0, 4, 68),
     (0, 4, 69), (0, 4, 71), (0, 5, 73), (0, 5, 75), (0, 5, 76), (0, 5, 78), (0, 6, 80),
     (0, 6, 81), (0, 6, 83), (0, 7, 84), (0, 7, 86), (0, 7, 88), (0, 7, 89), (0, 8, 91),
     (0, 8, 92), (0, 8, 94), (0, 9, 96), (0, 9, 97), (0, 9, 99), (0, 10, 100), (0, 10, 102),
     (0, 11, 103), (0, 11, 105), (0, 11, 106), (0, 12, 108), (0, 12, 109), (0, 12, 110),
     (0, 13, 112), (0, 13, 113), (0, 14, 115), (0, 14, 116), (0, 14, 117), (0, 15, 119),
     (0, 15, 120), (0, 16, 122), (0, 16, 123), (0, 17, 124), (0, 17, 126), (0, 17, 127),
     (0, 18, 128), (0, 18, 129), (0, 19, 131), (1, 19, 132), (1, 20, 133), (1, 20, 135),
     (1, 21, 136), (1, 21, 137), (1, 22, 138), (1, 22, 139), (1, 23, 141), (1, 23, 142),
     (1, 24, 143), (1, 24, 144), (1, 25, 145), (1, 25, 147), (1, 26, 148), (1, 26, 149),
     (1, 27, 150), (1, 27, 151), (1, 28, 152), (1, 28, 153), (1, 29, 154), (1, 29, 155),
     (2, 30, 156), (2, 30, 158), (2, 31, 159), (2, 32, 160), (2, 32, 161), (2, 33, 162),
     (2, 33, 163), (2, 34, 164), (2, 34, 165), (2, 35, 166), (2, 36, 167), (2, 36, 168),
     (2, 37, 169), (2, 37, 169), (2, 38, 170), (3, 39, 171), (3, 39, 172), (3, 40, 173),
     (3, 40, 174), (3, 41, 175), (3, 42, 176), (3, 42, 177), (3, 43, 178), (3, 43, 178),
     (3, 44, 179), (3, 45, 180), (3, 45, 181), (4, 46, 182), (4, 47, 183), (4, 47, 183),
     (4, 48, 184), (4, 48, 185), (4, 49, 186), (4, 50, 187), (4, 50, 187), (4, 51, 188),
     (4, 52, 189), (4, 52, 190), (5, 53, 190), (5, 54, 191), (5, 54, 192), (5, 55, 193),
     (5, 56, 193), (5, 56, 194), (5, 57, 195), (5, 58, 195), (5, 58, 196), (6, 59, 197),
     (6, 60, 197), (6, 60, 198), (6, 61, 199), (6, 62, 199), (6, 62, 200), (6, 63, 200),
     (6, 64, 201), (7, 64, 202), (7, 65, 202), (7, 66, 203), (7, 67, 203), (7, 67, 204),
     (7, 68, 204), (7, 69, 205), (8, 69, 206), (8, 70, 206), (8, 71, 207), (8, 71, 207),
     (8, 72, 208), (8, 73, 208), (8, 74, 209), (9, 74, 209), (9, 75, 210), (9, 76, 210),
     (9, 76, 211), (9, 77, 211), (9, 78, 212), (9, 79, 212), (10, 79, 212), (10, 80, 213),
     (10, 81, 213), (10, 81, 214), (10, 82, 214), (10, 83, 215), (11, 84, 215), (11, 84, 215),
     (11, 85, 216), (11, 86, 216), (11, 86, 217), (12, 87, 217), (12, 88, 217), (12, 89, 218),
     (12, 89, 218), (12, 90, 218), (12, 91, 219), (13, 92, 219), (13, 92, 219), (13, 93, 220),
     (13, 94, 220), (13, 94, 220), (14, 95, 221), (14, 96, 221), (14, 97, 221), (14, 97, 221),
     (14, 98, 222), (15, 99, 222), (15, 100, 222), (15, 100, 223), (15, 101, 223),
     (15, 102, 223), (16, 103, 223), (16, 103, 223), (16, 104, 224), (16, 105, 224),
     (17, 106, 224), (17, 106, 224), (17, 107, 225), (17, 108, 225), (17, 108, 225),
     (18, 109, 225), (18, 110, 225), (18, 111, 225), (18, 111, 226), (19, 112, 226),
     (19, 113, 226), (19, 114, 226), (19, 114, 226), (20, 115, 226), (20, 116, 227),
     (20, 117, 227), (20, 117, 227), (20, 118, 227), (21, 119, 227), (21, 119, 227),
     (21, 120, 227), (22, 121, 227), (22, 122, 227), (22, 122, 227), (22, 123, 228),
     (23, 124, 228), (23, 125, 228), (23, 125, 228), (23, 126, 228), (24, 127, 228),
     (24, 127, 228), (24, 128, 228), (24, 129, 228), (25, 130, 228), (25, 130, 228),
     (25, 131, 228), (26, 132, 228), (26, 133, 228), (26, 133, 228)]"

definition palette_block_250 :: "(int \<times> int \<times> int) list" where
  "palette_block_250 =
    [(26, 134, 228), (27, 135, 228), (27, 135, 228), (27, 136, 228), (28, 137, 228),
     (28, 138, 228), (28, 138, 228), (28, 139, 228), (29, 140, 228), (29, 140, 228),
     (29, 141, 228), (30, 142, 228), (30, 143, 228), (30, 143, 228), (31, 144, 228),
     (31, 145, 228), (31, 145, 227), (32, 146, 227), (32, 147, 227), (32, 147, 227),
     (32, 148, 227), (33, 149, 227), (33, 149, 227), (33, 150, 227), (34, 151, 227),
     (34, 152, 227), (34, 152, 227), (35, 153, 226), (35, 154, 226), (35, 154, 226),
     (36, 155, 226), (36, 156, 226), (36, 156, 226), (37, 157, 226), (37, 158, 225),
     (37, 158, 225), (38, 159, 225), (38, 160, 225), (39, 160, 225), (39, 161, 225),
     (39, 162, 224), (40, 162, 224), (40, 163, 224), (40, 164, 224), (41, 164, 224),
     (41, 165, 224), (41, 166, 223), (42, 166, 223), (42, 167, 223), (43, 168, 223),
     (43, 168, 223), (43, 169, 222), (44, 169, 222), (44, 170, 222), (44, 171, 222),
     (45, 171, 221), (45, 172, 221), (46, 173, 221), (46, 173, 221), (46, 174, 220),
     (47, 175, 220), (47, 175, 220), (47, 176, 220), (48, 176, 219), (48, 177, 219),
     (49, 178, 219), (49, 178, 219), (49, 179, 218), (50, 179, 218), (50, 180, 218),
     (51, 181, 218), (51, 181, 217), (51, 182, 217), (52, 182, 217), (52, 183, 216),
     (53, 184, 216), (53, 184, 216), (54, 185, 216), (54, 185, 215), (54, 186, 215),
     (55, 186, 215), (55, 187, 214), (56, 188, 214), (56, 188, 214), (56, 189, 213),
     (57, 189, 213), (57, 190, 213), (58, 190, 212), (58, 191, 212), (59, 192, 212),
     (59, 192, 211), (59, 193, 211), (60, 193, 211), (60, 194, 210), (61, 194, 210),
     (61, 195, 210), (62, 195, 209), (62, 196, 209), (63, 196, 209), (63, 197, 208),
     (63, 197, 208), (64, 198, 207), (64, 199, 207), (65, 199, 207), (65, 200, 206),
     (66, 200, 206), (66, 201, 206), (67, 201, 205), (67, 202, 205), (68, 202, 204),
     (68, 203, 204), (68, 203, 204), (69, 204, 203), (69, 204, 203), (70, 204, 202),
     (70, 205, 202), (71, 205, 202), (71, 206, 201), (72, 206, 201), (72, 207, 200),
     (73, 207, 200), (73, 208, 200), (74, 208, 199), (74, 209, 199), (75, 209, 198),
     (75, 210, 198), (76, 210, 198), (76, 211, 197), (77, 211, 197), (77, 211, 196),
     (78, 212, 196), (78, 212, 195), (79, 213, 195), (79, 213, 194), (80, 214, 194),
     (80, 214, 194), (81, 214, 193), (81, 215, 193), (82, 215, 192), (82, 216, 192),
     (83, 216, 191), (83, 216, 191), (84, 217, 190), (84, 217, 190), (85, 218, 190),
     (85, 218, 189), (86, 218, 189), (86, 219, 188), (87, 219, 188), (87, 219, 187),
     (88, 220, 187), (88, 220, 186), (89, 221, 186), (89, 221, 185), (90, 221, 185),
     (90, 222, 184), (91, 222, 184), (91, 222, 183), (92, 223, 183), (92, 223, 182),
     (93, 223, 182), (93, 224, 182), (94, 224, 181), (94, 224, 181), (95, 225, 180),
     (95, 225, 180), (96, 225, 179), (97, 226, 179), (97, 226, 178), (98, 226, 178),
     (98, 226, 177), (99, 227, 177), (99, 227, 176), (100, 227, 176), (100, 228, 175),
     (101, 228, 175), (101, 228, 174), (102, 228, 174), (102, 229, 173), (103, 229, 173),
     (104, 229, 172), (104, 230, 172), (105, 230, 171), (105, 230, 171), (106, 230, 170),
     (106, 231, 170), (107, 231, 169), (107, 231, 169), (108, 231, 168), (108, 231, 168),
     (109, 232, 167), (110, 232, 166), (110, 232, 166), (111, 232, 165), (111, 233, 165),
     (112, 233, 164), (112, 233, 164), (113, 233, 163), (113, 233, 163), (114, 234, 162),
     (115, 234, 162), (115, 234, 161), (116, 234, 161), (116, 234, 160), (117, 235, 160),
     (117, 235, 159), (118, 235, 159), (118, 235, 158), (119, 235, 158), (120, 235, 157),
     (120, 236, 156), (121, 236, 156), (121, 236, 155), (122, 236, 155), (122, 236, 154),
     (123, 236, 154), (124, 236, 153), (124, 236, 153), (125, 237, 152), (125, 237, 152),
     (126, 237, 151), (126, 237, 151), (127, 237, 150), (127, 237, 150), (128, 237, 149),
     (129, 237, 148), (129, 237, 148), (130, 238, 147), (130, 238, 147), (131, 238, 146),
     (131, 238, 146), (132, 238, 145), (133, 238, 145), (133, 238, 144), (134, 238, 144),
     (134, 238, 143), (135, 238, 143), (135, 238, 142), (136, 238, 141), (137, 238, 141),
     (137, 238, 140), (138, 238, 140), (138, 238, 139), (139, 238, 139), (139, 238, 138),
     (140, 239, 138), (141, 239, 137), (141, 239, 137), (142, 239, 136), (142, 239, 136)]"

definition palette_block_500 :: "(int \<times> int \<times> int) list" where
  "palette_block_500 =
    [(143, 239, 135), (144, 239, 134), (144, 239, 134), (145, 239, 133), (145, 239, 133),
     (146, 239, 132), (146, 238, 132), (147, 238, 131), (148, 238, 131), (148, 238, 130),
     (149, 238, 130), (149, 238, 129), (150, 238, 128), (150, 238, 128), (151, 238, 127),
     (152, 238, 127), (152, 238, 126), (153, 238, 126), (153, 238, 125), (154, 238, 125),
     (154, 238, 124), (155, 238, 124), (156, 238, 123), (156, 238, 123), (157, 237, 122),
     (157, 237, 121), (158, 237, 121), (158, 237, 120), (159, 237, 120), (160, 237, 119),
     (160, 237, 119), (161, 237, 118), (161, 237, 118), (162, 236, 117), (162, 236, 117),
     (163, 236, 116), (163, 236, 116), (164, 236, 115), (165, 236, 114), (165, 236, 114),
     (166, 236, 113), (166, 235, 113), (167, 235, 112), (167, 235, 112), (168, 235, 111),
     (169, 235, 111), (169, 235, 110), (170, 234, 110), (170, 234, 109), (171, 234, 109),
     (171, 234, 108), (172, 234, 108), (172, 233, 107), (173, 233, 107), (174, 233, 106),
     (174, 233, 106), (175, 233, 105), (175, 232, 104), (176, 232, 104), (176, 232, 103),
     (177, 232, 103), (177, 231, 102), (178, 231, 102), (178, 231, 101), (179, 231, 101),
     (180, 231, 100), (180, 230, 100), (181, 230, 99), (181, 230, 99), (182, 230, 98),
     (182, 229, 98), (183, 229, 97), (183, 229, 97), (184, 228, 96), (184, 228, 96),
     (185, 228, 95), (185, 228, 95), (186, 227, 94), (187, 227, 94), (187, 227, 93),
     (188, 226, 93), (188, 226, 92), (189, 226, 92), (189, 226, 91), (190, 225, 91),
     (190, 225, 90), (191, 225, 90), (191, 224, 89), (192, 224, 89), (192, 224, 88),
     (193, 223, 88), (193, 223, 87), (194, 223, 87), (194, 222, 86), (195, 222, 86),
     (195, 222, 85), (196, 221, 85), (196, 221, 84), (197, 221, 84), (197, 220, 83),
     (198, 220, 83), (198, 219, 82), (199, 219, 82), (199, 219, 81), (200, 218, 81),
     (200, 218, 80), (201, 218, 80), (201, 217, 79), (202, 217, 79), (202, 216, 78),
     (203, 216, 78), (203, 216, 77), (204, 215, 77), (204, 215, 77), (205, 214, 76),
     (205, 214, 76), (205, 214, 75), (206, 213, 75), (206, 213, 74), (207, 212, 74),
     (207, 212, 73), (208, 211, 73), (208, 211, 72), (209, 211, 72), (209, 210, 71),
     (210, 210, 71), (210, 209, 70), (211, 209, 70), (211, 208, 70), (211, 208, 69),
     (212, 207, 69), (212, 207, 68), (213, 206, 68), (213, 206, 67), (214, 205, 67),
     (214, 205, 66), (214, 204, 66), (215, 204, 66), (215, 204, 65), (216, 203, 65),
     (216, 203, 64), (216, 202, 64), (217, 202, 63), (217, 201, 63), (218, 201, 62),
     (218, 200, 62), (219, 200, 62), (219, 199, 61), (219, 199, 61), (220, 198, 60),
     (220, 197, 60), (220, 197, 59), (221, 196, 59), (221, 196, 59), (222, 195, 58),
     (222, 195, 58), (222, 194, 57), (223, 194, 57), (223, 193, 57), (223, 193, 56),
     (224, 192, 56), (224, 192, 55), (225, 191, 55), (225, 190, 54), (225, 190, 54),
     (226, 189, 54), (226, 189, 53), (226, 188, 53), (227, 188, 52), (227, 187, 52),
     (227, 186, 52), (228, 186, 51), (228, 185, 51), (228, 185, 51), (229, 184, 50),
     (229, 184, 50), (229, 183, 49), (230, 182, 49), (230, 182, 49), (230, 181, 48),
     (230, 181, 48), (231, 180, 47), (231, 179, 47), (231, 179, 47), (232, 178, 46),
     (232, 178, 46), (232, 177, 46), (232, 176, 45), (233, 176, 45), (233, 175, 44),
     (233, 175, 44), (233, 174, 44), (234, 173, 43), (234, 173, 43), (234, 172, 43),
     (234, 171, 42), (235, 171, 42), (235, 170, 42), (235, 169, 41), (235, 169, 41),
     (236, 168, 40), (236, 168, 40), (236, 167, 40), (236, 166, 39), (237, 166, 39),
     (237, 165, 39), (237, 164, 38), (237, 164, 38), (237, 163, 38), (238, 162, 37),
     (238, 162, 37), (238, 161, 37), (238, 160, 36), (238, 160, 36), (238, 159, 36),
     (239, 158, 35), (239, 158, 35), (239, 157, 35), (239, 156, 34), (239, 156, 34),
     (239, 155, 34), (239, 154, 33), (240, 154, 33), (240, 153, 33), (240, 152, 32),
     (240, 152, 32), (240, 151, 32), (240, 150, 32), (240, 149, 31), (240, 149, 31),
     (241, 148, 31), (241, 147, 30), (241, 147, 30), (241, 146, 30), (241, 145, 29),
     (241, 145, 29), (241, 144, 29), (241, 143, 29), (241, 143, 28), (241, 142, 28),
     (241, 141, 28), (241, 140, 27), (241, 140, 27), (241, 139, 27), (241, 138, 27),
     (241, 138, 26), (242, 137, 26), (242, 136, 26), (242, 135, 25), (242, 135, 25)]"

definition palette_block_750 :: "(int \<times> int \<times> int) list" where
  "palette_block_750 =
    [(242, 134, 25), (242, 133, 25), (242, 133, 24), (242, 132, 24), (242, 131, 24),
     (241, 130, 24), (241, 130, 23), (241, 129, 23), (241, 128, 23), (241, 127, 23),
     (241, 127, 22), (241, 126, 22), (241, 125, 22), (241, 125, 22), (241, 124, 21),
     (241, 123, 21), (241, 122, 21), (241, 122, 21), (241, 121, 20), (241, 120, 20),
     (240, 119, 20), (240, 119, 20), (240, 118, 19), (240, 117, 19), (240, 117, 19),
     (240, 116, 19), (240, 115, 18), (240, 114, 18), (239, 114, 18), (239, 113, 18),
     (239, 112, 18), (239, 111, 17), (239, 111, 17), (239, 110, 17), (238, 109, 17),
     (238, 108, 16), (238, 108, 16), (238, 107, 16), (238, 106, 16), (237, 106, 16),
     (237, 105, 15), (237, 104, 15), (237, 103, 15), (236, 103, 15), (236, 102, 15),
     (236, 101, 14), (236, 100, 14), (235, 100, 14), (235, 99, 14), (235, 98, 14), (235, 97, 13),
     (234, 97, 13), (234, 96, 13), (234, 95, 13), (233, 94, 13), (233, 94, 12), (233, 93, 12),
     (232, 92, 12), (232, 92, 12), (232, 91, 12), (231, 90, 12), (231, 89, 11), (230, 89, 11),
     (230, 88, 11), (230, 87, 11), (229, 86, 11), (229, 86, 11), (229, 85, 10), (228, 84, 10),
     (228, 84, 10), (227, 83, 10), (227, 82, 10), (226, 81, 10), (226, 81, 9), (225, 80, 9),
     (225, 79, 9), (225, 79, 9), (224, 78, 9), (224, 77, 9), (223, 76, 8), (223, 76, 8),
     (222, 75, 8), (222, 74, 8), (221, 74, 8), (220, 73, 8), (220, 72, 8), (219, 71, 7),
     (219, 71, 7), (218, 70, 7), (218, 69, 7), (217, 69, 7), (217, 68, 7), (216, 67, 7),
     (215, 67, 7), (215, 66, 6), (214, 65, 6), (214, 64, 6), (213, 64, 6), (212, 63, 6),
     (212, 62, 6), (211, 62, 6), (210, 61, 6), (210, 60, 5), (209, 60, 5), (208, 59, 5),
     (207, 58, 5), (207, 58, 5), (206, 57, 5), (205, 56, 5), (205, 56, 5), (204, 55, 5),
     (203, 54, 5), (202, 54, 4), (202, 53, 4), (201, 52, 4), (200, 52, 4), (199, 51, 4),
     (198, 50, 4), (198, 50, 4), (197, 49, 4), (196, 48, 4), (195, 48, 4), (194, 47, 3),
     (193, 47, 3), (193, 46, 3), (192, 45, 3), (191, 45, 3), (190, 44, 3), (189, 43, 3),
     (188, 43, 3), (187, 42, 3), (186, 42, 3), (185, 41, 3), (184, 40, 3), (183, 40, 2),
     (182, 39, 2), (181, 39, 2), (180, 38, 2), (179, 37, 2), (178, 37, 2), (177, 36, 2),
     (176, 36, 2), (175, 35, 2), (174, 34, 2), (173, 34, 2), (172, 33, 2), (171, 33, 2),
     (170, 32, 2), (169, 32, 2), (168, 31, 2), (167, 30, 1), (166, 30, 1), (165, 29, 1),
     (163, 29, 1), (162, 28, 1), (161, 28, 1), (160, 27, 1), (159, 27, 1), (158, 26, 1),
     (156, 26, 1), (155, 25, 1), (154, 25, 1), (153, 24, 1), (151, 24, 1), (150, 23, 1),
     (149, 23, 1), (148, 22, 1), (146, 22, 1), (145, 21, 1), (144, 21, 1), (142, 20, 1),
     (141, 20, 0), (140, 19, 0), (138, 19, 0), (137, 18, 0), (136, 18, 0), (134, 17, 0),
     (133, 17, 0), (132, 17, 0), (130, 16, 0), (129, 16, 0), (127, 15, 0), (126, 15, 0),
     (124, 14, 0), (123, 14, 0), (121, 14, 0), (120, 13, 0), (118, 13, 0), (117, 12, 0),
     (115, 12, 0), (114, 12, 0), (112, 11, 0), (111, 11, 0), (109, 11, 0), (108, 10, 0),
     (106, 10, 0), (104, 9, 0), (103, 9, 0), (101, 9, 0), (100, 8, 0), (98, 8, 0), (96, 8, 0),
     (95, 7, 0), (93, 7, 0), (91, 7, 0), (89, 7, 0), (88, 6, 0), (86, 6, 0), (84, 6, 0),
     (82, 5, 0), (81, 5, 0), (79, 5, 0), (77, 5, 0), (75, 4, 0), (74, 4, 0), (72, 4, 0),
     (70, 4, 0), (68, 3, 0), (66, 3, 0), (64, 3, 0), (62, 3, 0), (60, 3, 0), (59, 2, 0),
     (57, 2, 0), (55, 2, 0), (53, 2, 0), (51, 2, 0), (49, 1, 0), (47, 1, 0), (45, 1, 0),
     (43, 1, 0), (41, 1, 0), (39, 1, 0), (37, 1, 0), (34, 0, 0), (32, 0, 0), (30, 0, 0),
     (28, 0, 0), (26, 0, 0), (24, 0, 0), (22, 0, 0), (20, 0, 0), (17, 0, 0), (15, 0, 0),
     (13, 0, 0), (11, 0, 0), (9, 0, 0), (6, 0, 0), (4, 0, 0), (2, 0, 0), (0, 0, 0)]"

definition palette_table :: "(int \<times> int \<times> int) list" where
  "palette_table = palette_block_0 @ palette_block_250 @ palette_block_500 @ palette_block_750"

text \<open>
  A table entry \<open>n\<close> is the floor of the fraction \<open>N / D\<close>, with a margin of \<open>m / D\<close> to the
  next integers on both sides unless the fraction is zero.
\<close>

definition channel_ok :: "int \<Rightarrow> int \<Rightarrow> int \<Rightarrow> int \<Rightarrow> bool" where
  "channel_ok N D m n =
     (0 \<le> n \<and> n \<le> 255 \<and> ((N = 0 \<and> n = 0) \<or> (n * D + m \<le> N \<and> N + m \<le> n * D + D)))"

definition entry_ok :: "int \<Rightarrow> int \<times> int \<times> int \<Rightarrow> bool" where
  "entry_ok i e =
     (channel_ok (2295 * (1000 - i) * i ^ 3) (10 ^ 12) (10 ^ 6) (fst e)
      \<and> channel_ok (3825 * (1000 - i) ^ 2 * i ^ 2) (10 ^ 12) (10 ^ 6) (fst (snd e))
      \<and> channel_ok (21675 * (1000 - i) ^ 3 * i) (10 ^ 13) (10 ^ 7) (snd (snd e)))"

fun table_ok :: "int \<Rightarrow> (int \<times> int \<times> int) list \<Rightarrow> bool" where
  "table_ok i [] = True"
| "table_ok i (e # es) = (entry_ok i e \<and> table_ok (i + 1) es)"

text \<open>The colour stored for a table entry, and the object the constructor builds.\<close>

definition color_of :: "int \<times> int \<times> int \<Rightarrow> sf_Color" where
  "color_of e =
     Color (word_of_int (fst e)) (word_of_int (fst (snd e))) (word_of_int (snd (snd e))) 255"

definition the_palette :: Mandelbrot where
  "the_palette = \<lparr>colors = map color_of palette_table\<rparr>"

subsection \<open>Inputs of the program's own\<close>

text \<open>
  The image \<^verbatim>\<open>main\<close> creates (\<^verbatim>\<open>IMAGE_WIDTH\<close> by \<^verbatim>\<open>IMAGE_HEIGHT\<close>, black), its first
  viewport (the \<^verbatim>\<open>double\<close> literals \<^verbatim>\<open>0.004\<close>, \<^verbatim>\<open>-0.7\<close> and \<^verbatim>\<open>0.0\<close>), and the palette array as
  it is before the constructor fills it.
\<close>

definition main_image :: sf_Image where
  "main_image = \<lparr>size_x = nat IMAGE_WIDTH, size_y = nat IMAGE_HEIGHT, pixels = (\<lambda>p. Color 0 0 0 255)\<rparr>"

definition main_zoom :: double where
  "main_zoom = Finite (1152921504606847 / 288230376151711744)"

definition main_offset_X :: double where
  "main_offset_X = Finite (- (3152519739159347 / 4503599627370496))"

definition main_offset_Y :: double where
  "main_offset_Y = Finite 0"

definition blank_Mandelbrot :: Mandelbrot where
  "blank_Mandelbrot = \<lparr>colors = replicate (nat (kMaxIterations + 1)) (Color 0 0 0 255)\<rparr>"

section \<open>Properties of the binary64 model\<close>

lemma log2_up_bounds:
  "1 \<le> q \<Longrightarrow> 0 \<le> log2_up q \<and> 2 powi (log2_up q) \<le> q \<and> q < 2 powi (log2_up q + 1)"
proof (induction q rule: log2_up.induct)
  case (1 q)
  show ?case
  proof (cases "q < 2")
    case True
    with "1.prems" show ?thesis by (simp add: log2_up.simps)
  next
    case False
    then have h: "1 \<le> q / 2" by simp
    from "1.IH"[OF False h] have ih: "0 \<le> log2_up (q / 2)"
      "2 powi (log2_up (q / 2)) \<le> q / 2" "q / 2 < 2 powi (log2_up (q / 2) + 1)" by auto
    have e: "log2_up q = log2_up (q / 2) + 1" using False by (simp add: log2_up.simps)
    have a: "2 powi (log2_up (q / 2) + 1) = 2 powi (log2_up (q / 2)) * (2::real)"
      by (simp add: power_int_add)
    have b: "2 powi (log2_up (q / 2) + 1 + 1) = 2 powi (log2_up (q / 2) + 1) * (2::real)"
      by (simp add: power_int_add)
    show ?thesis unfolding e using ih a b by auto
  qed
qed

lemma log2_down_bounds:
  "0 < q \<Longrightarrow> q < 1 \<Longrightarrow> log2_down q < 0 \<and> 2 powi (log2_down q) \<le> q \<and> q < 2 powi (log2_down q + 1)"
proof (induction q rule: log2_down.induct)
  case (1 q)
  have e: "log2_down q = log2_down (q * 2) - 1" using "1.prems" by (simp add: log2_down.simps)
  show ?case
  proof (cases "q * 2 < 1")
    case True
    have n: "\<not> (q \<le> 0 \<or> 1 \<le> q)" using "1.prems" by simp
    have p: "0 < q * 2" using "1.prems" by simp
    from "1.IH"[OF n p True] have ih: "log2_down (q * 2) < 0"
      "2 powi (log2_down (q * 2)) \<le> q * 2" "q * 2 < 2 powi (log2_down (q * 2) + 1)" by auto
    have a: "2 powi (log2_down (q * 2)) = 2 powi (log2_down (q * 2) - 1) * (2::real)"
      by (simp add: power_int_diff)
    have b: "2 powi (log2_down (q * 2) + 1) = 2 powi (log2_down (q * 2)) * (2::real)"
      by (simp add: power_int_add)
    show ?thesis unfolding e using ih a b by auto
  next
    case False
    then have "log2_down (q * 2) = 0" by (simp add: log2_down.simps)
    with False "1.prems" show ?thesis unfolding e by (simp add: power_int_minus)
  qed
qed

lemma ilog2_bounds:
  assumes "q \<noteq> 0"
  shows "2 powi (ilog2 q) \<le> \<bar>q\<bar>" and "\<bar>q\<bar> < 2 powi (ilog2 q + 1)"
  using assms log2_up_bounds[of "\<bar>q\<bar>"] log2_down_bounds[of "\<bar>q\<bar>"]
  by (auto simp: ilog2_def)

lemma rne_error: "\<bar>of_int (rne x) - x\<bar> \<le> 1 / 2"
  unfolding rne_def by (auto simp: abs_if) linarith+

lemma rne_of_int [simp]: "rne (of_int n) = n"
  by (simp add: rne_def)

lemma ulp_pos: "0 < ulp q"
  by (simp add: ulp_def)

lemma round_to_error: "\<bar>round_to (ulp q) q - q\<bar> \<le> ulp q / 2"
proof -
  define a where "a = real_of_int (rne (q / ulp q))"
  have u: "0 < ulp q" by (rule ulp_pos)
  have "\<bar>a - q / ulp q\<bar> * ulp q \<le> (1 / 2) * ulp q"
    unfolding a_def using rne_error[of "q / ulp q"] u by (intro mult_right_mono) auto
  moreover have "a * ulp q - q = (a - q / ulp q) * ulp q"
    using u by (simp add: field_simps)
  then have "\<bar>a * ulp q - q\<bar> = \<bar>a - q / ulp q\<bar> * ulp q"
    using u by (simp add: abs_mult)
  ultimately show ?thesis by (simp add: round_to_def a_def)
qed

lemma ilog2_less:
  assumes "q \<noteq> 0" "\<bar>q\<bar> < 2 powi N"
  shows "ilog2 q < N"
proof -
  have "(2::real) powi (ilog2 q) < 2 powi N"
    using ilog2_bounds(1)[OF assms(1)] assms(2) by linarith
  then show ?thesis
    using power_int_increasing[of N "ilog2 q" "2::real"] by (cases "ilog2 q < N") auto
qed

lemma fl_finite:
  assumes "q \<noteq> 0" "\<bar>q\<bar> < 2 powi N" "N \<le> 1023"
  shows "fl q = Finite (round_to (ulp q) q)"
    and "\<bar>round_to (ulp q) q - q\<bar> \<le> 2 powi (max (N - 1) (- 1022) - 53)"
proof -
  have e: "ilog2 q \<le> N - 1" using ilog2_less[OF assms(1,2)] by simp
  then have E: "max (ilog2 q) (- 1022) - 52 \<le> max (N - 1) (- 1022) - 52" by auto
  have u: "ulp q \<le> 2 powi (max (N - 1) (- 1022) - 52)"
    unfolding ulp_def by (rule power_int_increasing[OF E]) simp
  have half: "2 powi (max (N - 1) (- 1022) - 52) / 2 = (2::real) powi (max (N - 1) (- 1022) - 53)"
    by (simp add: power_int_diff)
  show err: "\<bar>round_to (ulp q) q - q\<bar> \<le> 2 powi (max (N - 1) (- 1022) - 53)"
    using round_to_error[of q] u half by linarith
  define P :: real where "P = 2 powi 1022"
  have P: "0 < P" by (simp add: P_def)
  have "max (N - 1) (- 1022) - 53 \<le> 1022" using assms(3) by auto
  then have A: "(2::real) powi (max (N - 1) (- 1022) - 53) \<le> P"
    unfolding P_def by (rule power_int_increasing) simp
  have "(2::real) powi N \<le> 2 powi 1023"
    using assms(3) by (rule power_int_increasing) simp
  moreover have "(2::real) powi 1023 = 2 powi 1022 * 2 powi 1" by (subst power_int_add[symmetric]) auto
  ultimately have B: "(2::real) powi N \<le> 2 * P" by (simp add: P_def)
  have "(2::real) powi 1024 = 2 powi 1022 * 2 powi 2" by (subst power_int_add[symmetric]) auto
  then have C: "(2::real) powi 1024 = 4 * P" by (simp add: P_def)
  have "\<bar>round_to (ulp q) q\<bar> < 4 * P"
    using err assms(2) A B P by linarith
  then show "fl q = Finite (round_to (ulp q) q)"
    using assms(1) unfolding fl_def C by simp
qed

lemma fl_exact:
  assumes q: "q = of_int n * 2 powi k" and n: "\<bar>n\<bar> < 2 ^ 53" and k: "- 1074 \<le> k"
    and b: "\<bar>q\<bar> < 2 powi 1024"
  shows "fl q = Finite q"
proof (cases "q = 0")
  case True
  then show ?thesis by (simp add: fl_def)
next
  case False
  define E where "E = max (ilog2 q) (- 1022)"
  have "\<bar>real_of_int n\<bar> < 2 ^ 53"
    using n by (metis of_int_abs of_int_less_iff of_int_numeral of_int_power)
  moreover have "\<bar>(2::real) powi k\<bar> = 2 powi k" "0 < (2::real) powi k" by simp_all
  ultimately have "\<bar>q\<bar> < 2 ^ 53 * 2 powi k"
    unfolding q abs_mult by (simp only: mult_strict_right_mono)
  also have "\<dots> = 2 powi (53 + k)" by (simp add: power_int_add)
  finally have "ilog2 q < 53 + k" by (rule ilog2_less[OF False])
  then have Ek: "E - 52 \<le> k" using k by (auto simp: E_def)
  define d where "d = nat (k - (E - 52))"
  have kd: "k = (E - 52) + int d" using Ek by (simp add: d_def)
  have u: "ulp q = 2 powi (E - 52)" by (simp add: ulp_def E_def)
  have "(2::real) powi k = 2 powi (E - 52) * 2 powi (int d)"
    by (subst kd) (simp add: power_int_add)
  then have qd: "q = of_int (n * 2 ^ d) * 2 powi (E - 52)" by (simp add: q)
  have "q / ulp q = of_int (n * 2 ^ d)"
    unfolding u by (subst qd) simp
  then have "rne (q / ulp q) = n * 2 ^ d" by (simp only: rne_of_int)
  then have r: "round_to (ulp q) q = q"
    unfolding round_to_def u by (subst (2) qd) simp
  show ?thesis using False b by (simp add: fl_def r)
qed

lemma fl_of_int: "\<bar>n\<bar> < 2 ^ 53 \<Longrightarrow> fl (of_int n) = Finite (of_int n)"
proof (rule fl_exact[where n = n and k = 0])
  assume n: "\<bar>n\<bar> < 2 ^ 53"
  then have "\<bar>real_of_int n\<bar> < 2 ^ 53"
    by (metis of_int_abs of_int_less_iff of_int_numeral of_int_power)
  also have "\<dots> < 2 powi 1024" by simp
  finally show "\<bar>real_of_int n\<bar> < 2 powi 1024" .
qed simp_all

section \<open>The dispatch loop\<close>

lemma dispatch_slices_from:
  "1 \<le> STEP \<Longrightarrow> dispatch height STEP i threads = Some (threads @ slices_from height STEP i)"
proof (induction height STEP i arbitrary: threads rule: slices_from.induct)
  case (1 height STEP i)
  show ?case
  proof (cases "i < height")
    case True
    have "dispatch height STEP i threads
            = dispatch height STEP (i + STEP) (threads @ [(i, min (i + STEP) height)])"
      using True by (subst dispatch.simps) simp
    also have "\<dots> = Some ((threads @ [(i, min (i + STEP) height)]) @ slices_from height STEP (i + STEP))"
      using True "1.prems" by (intro "1.IH") auto
    also have "\<dots> = Some (threads @ slices_from height STEP i)"
      using True "1.prems" by (subst (2) slices_from.simps) simp
    finally show ?thesis .
  next
    case False
    then show ?thesis
      by (subst dispatch.simps, subst slices_from.simps) simp
  qed
qed

lemma dispatch_diverges_aux:
  assumes "dispatch height STEP i threads = Some y"
  shows "\<not> (STEP \<le> 0 \<and> i < height)"
proof (rule dispatch.raw_induct[where P = "\<lambda>h s j ts r. \<not> (s \<le> 0 \<and> j < h)", OF _ assms])
  fix d :: "int \<Rightarrow> int \<Rightarrow> int \<Rightarrow> (int \<times> int) list \<Rightarrow> (int \<times> int) list option"
  fix h s j ts r
  assume IH: "\<And>h s j ts r. d h s j ts = Some r \<Longrightarrow> \<not> (s \<le> 0 \<and> j < h)"
  assume step: "(if j < h then d h s (j + s) (ts @ [(j, min (j + s) h)]) else Some ts) = Some r"
  show "\<not> (s \<le> 0 \<and> j < h)"
  proof
    assume a: "s \<le> 0 \<and> j < h"
    with step have "d h s (j + s) (ts @ [(j, min (j + s) h)]) = Some r" by simp
    from IH[OF this] a show False by auto
  qed
qed

lemma dispatch_diverges: "STEP \<le> 0 \<Longrightarrow> i < height \<Longrightarrow> dispatch height STEP i threads = None"
  using dispatch_diverges_aux[of height STEP i threads] by (cases "dispatch height STEP i threads") auto

lemma dispatch_returns_iff:
  "(dispatch height STEP 0 [] \<noteq> None) = (1 \<le> STEP \<or> height \<le> 0)"
proof (cases "1 \<le> STEP")
  case True
  then show ?thesis by (simp add: dispatch_slices_from)
next
  case False
  show ?thesis
  proof (cases "0 < height")
    case True
    with False show ?thesis by (simp add: dispatch_diverges)
  next
    case False
    then show ?thesis by (subst dispatch.simps) simp
  qed
qed

lemma compute_STEP_eq:
  "hc \<noteq> 0 \<Longrightarrow> compute_STEP hc = Inr (IMAGE_HEIGHT div uint hc)"
  by (simp add: compute_STEP_def IMAGE_HEIGHT_def uint_div)

lemma compute_STEP_zero: "compute_STEP 0 = Inl DivisionByZero"
  by (simp add: compute_STEP_def)

lemma uint_pos: "hc \<noteq> 0 \<Longrightarrow> 1 \<le> uint (hc :: 32 word)"
proof -
  assume "hc \<noteq> 0"
  then have "uint hc \<noteq> 0" by (simp add: uint_0_iff)
  moreover have "0 \<le> uint hc" by simp
  ultimately show ?thesis by linarith
qed

lemma STEP_pos_iff:
  "1 \<le> n \<Longrightarrow> (1 \<le> IMAGE_HEIGHT div n) = (n \<le> IMAGE_HEIGHT)"
  using pos_imp_zdiv_pos_iff[of n IMAGE_HEIGHT] by auto

section \<open>The slices of a frame\<close>

lemma contiguous_slices_from:
  "1 \<le> STEP \<Longrightarrow> i \<le> height \<Longrightarrow> contiguous i (slices_from height STEP i) height"
proof (induction height STEP i rule: slices_from.induct)
  case (1 height STEP i)
  show ?case
  proof (cases "i < height")
    case True
    note lt = this
    show ?thesis
    proof (cases "i + STEP \<le> height")
      case True
      then have "contiguous (i + STEP) (slices_from height STEP (i + STEP)) height"
        using lt "1.prems" by (intro "1.IH") auto
      then show ?thesis
        using lt True "1.prems" by (subst slices_from.simps) (simp add: min_def)
    next
      case False
      then have "slices_from height STEP (i + STEP) = []"
        by (subst slices_from.simps) simp
      then show ?thesis
        using lt False "1.prems" by (subst slices_from.simps) (simp add: min_def)
    qed
  next
    case False
    with "1.prems" show ?thesis by (subst slices_from.simps) simp
  qed
qed

lemma contiguous_le: "contiguous a ss b \<Longrightarrow> a \<le> b"
  by (induction ss arbitrary: a) force+

lemma contiguous_bounds:
  "contiguous a ss b \<Longrightarrow> s \<in> set ss \<Longrightarrow> a \<le> fst s \<and> fst s < snd s \<and> snd s \<le> b"
proof (induction ss arbitrary: a)
  case Nil
  then show ?case by simp
next
  case (Cons t ss)
  show ?case
  proof (cases "s = t")
    case True
    with Cons.prems contiguous_le[of "snd t" ss b] show ?thesis by auto
  next
    case False
    with Cons.prems have "s \<in> set ss" "contiguous (snd t) ss b" by auto
    from Cons.IH[OF this(2,1)] Cons.prems show ?thesis by auto
  qed
qed

lemma contiguous_union: "contiguous a ss b \<Longrightarrow> (\<Union>s\<in>set ss. rows s) = {a..<b}"
proof (induction ss arbitrary: a)
  case Nil
  then show ?case by simp
next
  case (Cons t ss)
  then have c: "contiguous (snd t) ss b" and t: "fst t = a" "fst t < snd t" by auto
  have "snd t \<le> b" using contiguous_le[OF c] .
  then have "{a..<snd t} \<union> {snd t..<b} = {a..<b}" using t by auto
  then show ?case using Cons.IH[OF c] t by (simp add: rows_def)
qed

lemma contiguous_disjoint:
  "contiguous a ss b \<Longrightarrow> j < k \<Longrightarrow> k < length ss \<Longrightarrow> rows (ss ! j) \<inter> rows (ss ! k) = {}"
proof (induction ss arbitrary: a j k)
  case Nil
  then show ?case by simp
next
  case (Cons t ss)
  then have c: "contiguous (snd t) ss b" by simp
  obtain k' where k: "k = Suc k'" using Cons.prems(2) by (cases k) auto
  show ?case
  proof (cases j)
    case 0
    have "ss ! k' \<in> set ss" using Cons.prems(3) k by simp
    from contiguous_bounds[OF c this] show ?thesis
      using 0 k by (auto simp: rows_def)
  next
    case (Suc j')
    then show ?thesis using Cons.IH[OF c, of j' k'] Cons.prems k by simp
  qed
qed

lemma contiguous_unique_slice:
  assumes "contiguous a ss b" "a \<le> y" "y < b"
  shows "\<exists>!k. k < length ss \<and> y \<in> rows (ss ! k)"
proof -
  have "y \<in> (\<Union>s\<in>set ss. rows s)" using contiguous_union[OF assms(1)] assms(2,3) by simp
  then obtain k where k: "k < length ss" "y \<in> rows (ss ! k)"
    by (auto simp: in_set_conv_nth)
  show ?thesis
  proof (rule ex1I[of _ k])
    show "k < length ss \<and> y \<in> rows (ss ! k)" using k by simp
  next
    fix j
    assume j: "j < length ss \<and> y \<in> rows (ss ! j)"
    show "j = k"
    proof (rule ccontr)
      assume "j \<noteq> k"
      then consider "j < k" | "k < j" by linarith
      then show False
        using contiguous_disjoint[OF assms(1), of j k] contiguous_disjoint[OF assms(1), of k j] j k
        by cases auto
    qed
  qed
qed


lemma length_slices_from:
  "1 \<le> STEP \<Longrightarrow> length (slices_from height STEP i) = nat ((height - i + STEP - 1) div STEP)"
proof (induction height STEP i rule: slices_from.induct)
  case (1 height STEP i)
  show ?case
  proof (cases "i < height")
    case True
    have e: "slices_from height STEP i = (i, min (i + STEP) height) # slices_from height STEP (i + STEP)"
      using True "1.prems" by (subst slices_from.simps) simp
    have ih: "length (slices_from height STEP (i + STEP)) = nat ((height - (i + STEP) + STEP - 1) div STEP)"
      using True "1.prems" by (intro "1.IH") auto
    define x where "x = (height - i - 1) div STEP"
    have a: "height - i + STEP - 1 = (height - i - 1) + STEP" by simp
    have nz: "STEP \<noteq> 0" using "1.prems" by simp
    have A: "(height - i + STEP - 1) div STEP = x + 1"
      unfolding a x_def by (rule div_add_self2[OF nz])
    have B: "0 \<le> x"
      unfolding x_def using True "1.prems" by (simp add: pos_imp_zdiv_nonneg_iff)
    have C: "height - (i + STEP) + STEP - 1 = height - i - 1" by simp
    have "nat (x + 1) = Suc (nat x)" using B by simp
    then show ?thesis unfolding e A using ih unfolding C x_def[symmetric] by simp
  next
    case False
    then have "height - i + STEP - 1 \<le> STEP - 1" by simp
    then have "(height - i + STEP - 1) div STEP \<le> (STEP - 1) div STEP"
      using "1.prems" by (intro zdiv_mono1) auto
    moreover have "(STEP - 1) div STEP = 0" using "1.prems" by (intro div_pos_pos_trivial) auto
    moreover have "slices_from height STEP i = []" using False by (subst slices_from.simps) simp
    ultimately show ?thesis by simp
  qed
qed

lemma nth_slices_from:
  "1 \<le> STEP \<Longrightarrow> k < length (slices_from height STEP i) \<Longrightarrow>
   slices_from height STEP i ! k = (i + int k * STEP, min (i + int k * STEP + STEP) height)"
proof (induction height STEP i arbitrary: k rule: slices_from.induct)
  case (1 height STEP i)
  show ?case
  proof (cases "i < height")
    case True
    have e: "slices_from height STEP i = (i, min (i + STEP) height) # slices_from height STEP (i + STEP)"
      using True "1.prems" by (subst slices_from.simps) simp
    show ?thesis
    proof (cases k)
      case 0
      then show ?thesis by (simp add: e)
    next
      case (Suc k')
      then have "k' < length (slices_from height STEP (i + STEP))" using "1.prems"(2) e by simp
      then have "slices_from height STEP (i + STEP) ! k'
          = (i + STEP + int k' * STEP, min (i + STEP + int k' * STEP + STEP) height)"
        using True "1.prems"(1) by (intro "1.IH") auto
      then show ?thesis using Suc by (simp add: e algebra_simps)
    qed
  next
    case False
    then have "slices_from height STEP i = []" by (subst slices_from.simps) simp
    with "1.prems" show ?thesis by simp
  qed
qed


lemma dispatch_partition:
  assumes "1 \<le> STEP" "0 \<le> height"
  shows "dispatch height STEP 0 [] = Some (slices_from height STEP 0)"
    and "contiguous 0 (slices_from height STEP 0) height"
  using assms by (simp_all add: dispatch_slices_from contiguous_slices_from)

text \<open>
  C5. For every image height \<open>H \<ge> 1\<close> and every worker count \<open>W\<close> with \<open>1 \<le> W \<le> H\<close>, the
  dispatch loop run with \<open>STEP = H div W\<close> returns slices whose \<open>k\<close>-th row range is
  \<open>[k * STEP, min (k * STEP + STEP) H)\<close>; the ranges are pairwise disjoint, their union is
  \<open>[0, H)\<close>, and every row belongs to exactly one slice.
\<close>

theorem slices_partition_rows:
  fixes H W :: int
  assumes "1 \<le> W" and "W \<le> H"
  shows "\<exists>ts. dispatch H (H div W) 0 [] = Some ts
      \<and> (\<forall>k. k < length ts \<longrightarrow>
            ts ! k = (int k * (H div W), min (int k * (H div W) + H div W) H))
      \<and> (\<Union>s\<in>set ts. rows s) = {0..<H}
      \<and> (\<forall>j k. j < k \<and> k < length ts \<longrightarrow> rows (ts ! j) \<inter> rows (ts ! k) = {})
      \<and> (\<forall>y. 0 \<le> y \<and> y < H \<longrightarrow> (\<exists>!k. k < length ts \<and> y \<in> rows (ts ! k)))"
proof -
  define STEP where "STEP = H div W"
  define ts where "ts = slices_from H STEP 0"
  have s: "1 \<le> STEP" unfolding STEP_def using assms pos_imp_zdiv_pos_iff[of W H] by simp
  have h: "0 \<le> H" using assms by simp
  have d: "dispatch H STEP 0 [] = Some ts" unfolding ts_def by (rule dispatch_partition(1)[OF s h])
  have c: "contiguous 0 ts H" unfolding ts_def by (rule dispatch_partition(2)[OF s h])
  have n: "\<forall>k. k < length ts \<longrightarrow> ts ! k = (int k * STEP, min (int k * STEP + STEP) H)"
    unfolding ts_def using nth_slices_from[OF s, of _ H 0] by simp
  have u: "(\<Union>s\<in>set ts. rows s) = {0..<H}" by (rule contiguous_union[OF c])
  have j: "\<forall>j k. j < k \<and> k < length ts \<longrightarrow> rows (ts ! j) \<inter> rows (ts ! k) = {}"
    using contiguous_disjoint[OF c] by blast
  have y: "\<forall>y. 0 \<le> y \<and> y < H \<longrightarrow> (\<exists>!k. k < length ts \<and> y \<in> rows (ts ! k))"
    using contiguous_unique_slice[OF c] by blast
  show ?thesis unfolding STEP_def[symmetric] using d n u j y by blast
qed

theorem slices_partition_rows_witness:
  "(1::int) \<le> 8 \<and> (8::int) \<le> 540
   \<and> (\<exists>ts. dispatch 540 (540 div 8) 0 [] = Some ts \<and> (\<Union>s\<in>set ts. rows s) = {0..<540})"
proof -
  have a: "(1::int) \<le> 8" and b: "(8::int) \<le> 540" by simp_all
  have "\<exists>ts. dispatch 540 (540 div 8) 0 [] = Some ts \<and> (\<Union>s\<in>set ts. rows s) = {0..<540}"
    using slices_partition_rows[OF a b]
    by (elim exE conjE) (rule exI, rule conjI, assumption, assumption)
  with a b show ?thesis by (intro conjI)
qed




text \<open>
  C3, as the code has it. With a reported hardware concurrency of zero \<^verbatim>\<open>UpdateImage\<close>
  divides by zero when it computes \<open>STEP\<close>, before any slice is dispatched: there is no
  fallback to a single slice, and the call does not complete.
\<close>

theorem zero_concurrency_divides_by_zero:
  "UpdateImage mb 0 zoom offset_X offset_Y img = Some (Inl DivisionByZero)"
  by (simp add: UpdateImage_def compute_STEP_zero)

text \<open>C3 as stated fails on the image and the first viewport of \<^verbatim>\<open>main\<close>.\<close>

theorem zero_concurrency_counterexample:
  "UpdateImage blank_Mandelbrot 0 main_zoom main_offset_X main_offset_Y main_image
     = Some (Inl DivisionByZero)"
  by (simp add: UpdateImage_def compute_STEP_def)

section \<open>The iteration kernel\<close>

lemma ComputeMandelbrot_loop_range:
  "0 \<le> counter \<Longrightarrow> counter \<le> kMaxIterations \<Longrightarrow>
   counter \<le> ComputeMandelbrot_loop c_real c_imag z_real z_imag counter
   \<and> ComputeMandelbrot_loop c_real c_imag z_real z_imag counter \<le> kMaxIterations"
proof (induction c_real c_imag z_real z_imag counter rule: ComputeMandelbrot_loop.induct)
  case (1 c_real c_imag z_real z_imag counter)
  show ?case
  proof (cases "counter < kMaxIterations")
    case False
    with "1.prems" show ?thesis by (subst (1 2) ComputeMandelbrot_loop.simps) simp
  next
    case True
    show ?thesis
    proof (cases "dgt (dadd (dmul z_real z_real) (dmul z_imag z_imag)) (Finite 4)")
      case esc: True
      with True show ?thesis by (subst (1 2) ComputeMandelbrot_loop.simps) simp
    next
      case esc: False
      have "counter + 1 \<le> ComputeMandelbrot_loop c_real c_imag
                (dadd (dsub (dmul z_real z_real) (dmul z_imag z_imag)) c_real)
                (dadd (dmul (dmul (Finite 2) z_real) z_imag) c_imag) (counter + 1)
          \<and> ComputeMandelbrot_loop c_real c_imag
                (dadd (dsub (dmul z_real z_real) (dmul z_imag z_imag)) c_real)
                (dadd (dmul (dmul (Finite 2) z_real) z_imag) c_imag) (counter + 1) \<le> kMaxIterations"
        using True esc "1.prems" by (intro "1.IH") auto
      then show ?thesis using True esc by (subst (1 2) ComputeMandelbrot_loop.simps) simp
    qed
  qed
qed

lemma ComputeMandelbrot_loop_step:
  "int k < kMaxIterations \<Longrightarrow> \<not> escaped (orbit c_real c_imag k) \<Longrightarrow>
   ComputeMandelbrot_loop c_real c_imag (fst (orbit c_real c_imag k)) (snd (orbit c_real c_imag k)) (int k)
   = ComputeMandelbrot_loop c_real c_imag (fst (orbit c_real c_imag (Suc k)))
       (snd (orbit c_real c_imag (Suc k))) (int (Suc k))"
  by (subst ComputeMandelbrot_loop.simps) (simp add: escaped_def orbit_def next_z_def add.commute)

lemma ComputeMandelbrot_loop_escape:
  "int k < kMaxIterations \<Longrightarrow> escaped (orbit c_real c_imag k) \<Longrightarrow>
   ComputeMandelbrot_loop c_real c_imag (fst (orbit c_real c_imag k)) (snd (orbit c_real c_imag k)) (int k)
   = int k"
  by (subst ComputeMandelbrot_loop.simps) (simp add: escaped_def)

lemma ComputeMandelbrot_loop_end:
  "kMaxIterations \<le> int k \<Longrightarrow>
   ComputeMandelbrot_loop c_real c_imag z_real z_imag (int k) = kMaxIterations"
  by (subst ComputeMandelbrot_loop.simps) simp

lemma ComputeMandelbrot_loop_first_escape:
  "k \<le> n \<Longrightarrow> int n < kMaxIterations \<Longrightarrow> escaped (orbit c_real c_imag n) \<Longrightarrow>
   (\<forall>m. k \<le> m \<and> m < n \<longrightarrow> \<not> escaped (orbit c_real c_imag m)) \<Longrightarrow>
   ComputeMandelbrot_loop c_real c_imag (fst (orbit c_real c_imag k)) (snd (orbit c_real c_imag k)) (int k)
   = int n"
proof (induction "n - k" arbitrary: k)
  case 0
  then have "k = n" by simp
  with 0 show ?case by (simp add: ComputeMandelbrot_loop_escape)
next
  case (Suc d)
  then have lt: "k < n" by simp
  then have ne: "\<not> escaped (orbit c_real c_imag k)" using Suc.prems(4) by simp
  have "ComputeMandelbrot_loop c_real c_imag (fst (orbit c_real c_imag (Suc k)))
       (snd (orbit c_real c_imag (Suc k))) (int (Suc k)) = int n"
    using Suc.hyps(2) Suc.prems lt by (intro Suc.hyps(1)) auto
  then show ?case using ComputeMandelbrot_loop_step[OF _ ne] lt Suc.prems(2) by simp
qed

lemma ComputeMandelbrot_loop_no_escape:
  "(\<forall>m. k \<le> m \<and> int m < kMaxIterations \<longrightarrow> \<not> escaped (orbit c_real c_imag m)) \<Longrightarrow>
   ComputeMandelbrot_loop c_real c_imag (fst (orbit c_real c_imag k)) (snd (orbit c_real c_imag k)) (int k)
   = kMaxIterations"
proof (induction "nat kMaxIterations - k" arbitrary: k)
  case 0
  then have "kMaxIterations \<le> int k" by simp
  then show ?case by (rule ComputeMandelbrot_loop_end)
next
  case (Suc d)
  then have lt: "int k < kMaxIterations" by simp
  then have ne: "\<not> escaped (orbit c_real c_imag k)" using Suc.prems by simp
  have "ComputeMandelbrot_loop c_real c_imag (fst (orbit c_real c_imag (Suc k)))
       (snd (orbit c_real c_imag (Suc k))) (int (Suc k)) = kMaxIterations"
    using Suc.hyps(2) Suc.prems by (intro Suc.hyps(1)) auto
  then show ?case using ComputeMandelbrot_loop_step[OF lt ne] by simp
qed

lemma ComputeMandelbrot_range:
  "0 \<le> ComputeMandelbrot c_real c_imag \<and> ComputeMandelbrot c_real c_imag \<le> kMaxIterations"
  unfolding ComputeMandelbrot_def
  using ComputeMandelbrot_loop_range[of 0 c_real c_imag c_real c_imag]
  by (simp add: kMaxIterations_def)

lemma ComputeMandelbrot_orbit:
  "ComputeMandelbrot c_real c_imag
   = ComputeMandelbrot_loop c_real c_imag (fst (orbit c_real c_imag 0)) (snd (orbit c_real c_imag 0)) (int 0)"
  by (simp add: ComputeMandelbrot_def orbit_def)

lemma ComputeMandelbrot_first_escape:
  "int n < kMaxIterations \<Longrightarrow> escaped (orbit c_real c_imag n) \<Longrightarrow>
   (\<forall>m<n. \<not> escaped (orbit c_real c_imag m)) \<Longrightarrow> ComputeMandelbrot c_real c_imag = int n"
  unfolding ComputeMandelbrot_orbit by (rule ComputeMandelbrot_loop_first_escape) auto

lemma ComputeMandelbrot_no_escape:
  "(\<forall>m. int m < kMaxIterations \<longrightarrow> \<not> escaped (orbit c_real c_imag m)) \<Longrightarrow>
   ComputeMandelbrot c_real c_imag = kMaxIterations"
  unfolding ComputeMandelbrot_orbit by (rule ComputeMandelbrot_loop_no_escape) auto

lemma fl_numeral [simp]:
  "(numeral k :: int) < 2 ^ 53 \<Longrightarrow> fl (numeral k) = Finite (numeral k)"
  using fl_of_int[of "numeral k"] by simp

lemma fl_neg_numeral [simp]:
  "(numeral k :: int) < 2 ^ 53 \<Longrightarrow> fl (- numeral k) = Finite (- numeral k)"
  using fl_of_int[of "- numeral k"] by simp

lemma fl_0 [simp]: "fl 0 = Finite 0"
  by (simp add: fl_def)

lemma fl_1 [simp]: "fl 1 = Finite 1"
  using fl_of_int[of 1] by simp

text \<open>
  C2. For every pair \<open>(c_real, c_imag)\<close> (NaN and the infinities included) the kernel
  returns a value between 0 and \<open>kMaxIterations\<close>: the function is total, its loop
  counter bounds the recursion. It returns the index of the first escaped step of the
  orbit that starts at \<open>z = c\<close>, and \<open>kMaxIterations\<close> when none of the first
  \<open>kMaxIterations\<close> steps escapes.
\<close>

theorem ComputeMandelbrot_total:
  "0 \<le> ComputeMandelbrot c_real c_imag \<and> ComputeMandelbrot c_real c_imag \<le> kMaxIterations
   \<and> orbit c_real c_imag 0 = (c_real, c_imag)
   \<and> (\<forall>n. orbit c_real c_imag (Suc n) = next_z c_real c_imag (orbit c_real c_imag n))
   \<and> (\<forall>n. int n < kMaxIterations \<and> escaped (orbit c_real c_imag n)
            \<and> (\<forall>m<n. \<not> escaped (orbit c_real c_imag m))
          \<longrightarrow> ComputeMandelbrot c_real c_imag = int n)
   \<and> ((\<forall>n. int n < kMaxIterations \<longrightarrow> \<not> escaped (orbit c_real c_imag n))
          \<longrightarrow> ComputeMandelbrot c_real c_imag = kMaxIterations)"
proof -
  have "orbit c_real c_imag 0 = (c_real, c_imag)" by (simp add: orbit_def)
  moreover have "\<forall>n. orbit c_real c_imag (Suc n) = next_z c_real c_imag (orbit c_real c_imag n)"
    by (simp add: orbit_def)
  moreover have "\<forall>n. int n < kMaxIterations \<and> escaped (orbit c_real c_imag n)
            \<and> (\<forall>m<n. \<not> escaped (orbit c_real c_imag m))
          \<longrightarrow> ComputeMandelbrot c_real c_imag = int n"
    using ComputeMandelbrot_first_escape by blast
  moreover have "(\<forall>n. int n < kMaxIterations \<longrightarrow> \<not> escaped (orbit c_real c_imag n))
          \<longrightarrow> ComputeMandelbrot c_real c_imag = kMaxIterations"
    using ComputeMandelbrot_no_escape by blast
  ultimately show ?thesis using ComputeMandelbrot_range[of c_real c_imag] by blast
qed

lemma escaped_3_0: "escaped (orbit (Finite 3) (Finite 0) 0)"
  by (simp add: orbit_def escaped_def)

theorem ComputeMandelbrot_total_witness:
  "int 0 < kMaxIterations \<and> escaped (orbit (Finite 3) (Finite 0) 0)
   \<and> ComputeMandelbrot (Finite 3) (Finite 0) = 0"
proof -
  have a: "int 0 < kMaxIterations" by (simp add: kMaxIterations_def)
  have "ComputeMandelbrot (Finite 3) (Finite 0) = int 0"
    using ComputeMandelbrot_total[of "Finite 3" "Finite 0"] a escaped_3_0 by blast
  with a escaped_3_0 show ?thesis by simp
qed

lemma next_z_origin: "next_z (Finite 0) (Finite 0) (Finite 0, Finite 0) = (Finite 0, Finite 0)"
  by (simp add: next_z_def dsub_def)

lemma orbit_origin: "orbit (Finite 0) (Finite 0) n = (Finite 0, Finite 0)"
  by (induction n) (simp_all add: orbit_def next_z_origin)

lemma ComputeMandelbrot_origin: "ComputeMandelbrot (Finite 0) (Finite 0) = kMaxIterations"
  by (rule ComputeMandelbrot_no_escape) (simp add: orbit_origin escaped_def)

lemma orbit_2_0:
  "orbit (Finite 2) (Finite 0) 0 = (Finite 2, Finite 0)"
  "orbit (Finite 2) (Finite 0) (Suc 0) = (Finite 6, Finite 0)"
  by (simp_all add: orbit_def next_z_def dsub_def)

lemma ComputeMandelbrot_2_0: "ComputeMandelbrot (Finite 2) (Finite 0) = 1"
proof -
  have "ComputeMandelbrot (Finite 2) (Finite 0) = int (Suc 0)"
  proof (rule ComputeMandelbrot_first_escape)
    show "int (Suc 0) < kMaxIterations" by (simp add: kMaxIterations_def)
    show "escaped (orbit (Finite 2) (Finite 0) (Suc 0))" by (simp add: orbit_2_0 escaped_def)
    show "\<forall>m<Suc 0. \<not> escaped (orbit (Finite 2) (Finite 0) m)" by (simp add: orbit_2_0 escaped_def)
  qed
  then show ?thesis by simp
qed

text \<open>
  C9. At \<open>c = (0, 0)\<close> the orbit stays at the origin and the kernel returns
  \<open>kMaxIterations\<close>. At \<open>c = (2, 0)\<close> it returns 0 or 1; it returns 1: the first test
  compares \<open>4.0 > 4.0\<close>, the second \<open>36.0 > 4.0\<close>.
\<close>

theorem ComputeMandelbrot_known_points:
  "ComputeMandelbrot (Finite 0) (Finite 0) = kMaxIterations
   \<and> (ComputeMandelbrot (Finite 2) (Finite 0) = 0 \<or> ComputeMandelbrot (Finite 2) (Finite 0) = 1)
   \<and> ComputeMandelbrot (Finite 2) (Finite 0) = 1"
  by (simp add: ComputeMandelbrot_origin ComputeMandelbrot_2_0)

section \<open>The frame\<close>










section \<open>The dispatch loop and the thread limit\<close>

lemma dispatch_limited_stuck:
  "STEP \<le> 0 \<Longrightarrow> i < height \<Longrightarrow>
   dispatch_limited max_threads height STEP i threads = Inl ThreadCreationFailed"
proof (induction "max_threads - length threads" arbitrary: i threads)
  case 0
  then show ?case by (subst dispatch_limited.simps) simp
next
  case (Suc d)
  have "dispatch_limited max_threads height STEP (i + STEP) (threads @ [(i, min (i + STEP) height)])
          = Inl ThreadCreationFailed"
    using Suc.hyps(2) Suc.prems by (intro Suc.hyps(1)) auto
  then show ?case using Suc.prems Suc.hyps(2) by (subst dispatch_limited.simps) simp
qed

lemma dispatch_limited_slices_from:
  "1 \<le> STEP \<Longrightarrow> length threads \<le> max_threads \<Longrightarrow>
   dispatch_limited max_threads height STEP i threads =
     (if length threads + length (slices_from height STEP i) \<le> max_threads
      then Inr (threads @ slices_from height STEP i) else Inl ThreadCreationFailed)"
proof (induction height STEP i arbitrary: threads rule: slices_from.induct)
  case (1 height STEP i)
  show ?case
  proof (cases "i < height")
    case False
    then have "slices_from height STEP i = []" by (subst slices_from.simps) simp
    then show ?thesis using False "1.prems" by (subst dispatch_limited.simps) simp
  next
    case True
    have sl: "slices_from height STEP i = (i, min (i + STEP) height) # slices_from height STEP (i + STEP)"
      using True "1.prems" by (subst slices_from.simps) simp
    show ?thesis
    proof (cases "length threads < max_threads")
      case False
      then show ?thesis using True sl by (subst dispatch_limited.simps) simp
    next
      case lt: True
      have "dispatch_limited max_threads height STEP (i + STEP) (threads @ [(i, min (i + STEP) height)]) =
        (if length (threads @ [(i, min (i + STEP) height)]) + length (slices_from height STEP (i + STEP)) \<le> max_threads
         then Inr ((threads @ [(i, min (i + STEP) height)]) @ slices_from height STEP (i + STEP))
         else Inl ThreadCreationFailed)"
        using True "1.prems" lt by (intro "1.IH") auto
      then show ?thesis using True lt sl by (subst dispatch_limited.simps) simp
    qed
  qed
qed

lemma dispatch_limited_returns_iff:
  assumes "0 < height"
  shows "(\<exists>ts. dispatch_limited max_threads height STEP 0 [] = Inr ts)
         = (1 \<le> STEP \<and> (height + STEP - 1) div STEP \<le> int max_threads)"
proof (cases "1 \<le> STEP")
  case True
  have "0 \<le> (height + STEP - 1) div STEP"
    using True assms by (simp add: pos_imp_zdiv_nonneg_iff)
  then have "int (length (slices_from height STEP 0)) = (height + STEP - 1) div STEP"
    using length_slices_from[OF True, of height 0] by simp
  then show ?thesis using True by (auto simp: dispatch_limited_slices_from)
next
  case False
  then show ?thesis using assms by (simp add: dispatch_limited_stuck)
qed

lemma dispatch_limited_dispatch:
  "dispatch_limited max_threads height STEP 0 [] = Inr ts \<Longrightarrow> 0 < height \<Longrightarrow>
   dispatch height STEP 0 [] = Some ts"
proof -
  assume r: "dispatch_limited max_threads height STEP 0 [] = Inr ts" and h: "0 < height"
  have s: "1 \<le> STEP"
  proof (rule ccontr)
    assume "\<not> 1 \<le> STEP"
    then show False using r h by (simp add: dispatch_limited_stuck)
  qed
  then have "ts = slices_from height STEP 0"
    using r by (simp add: dispatch_limited_slices_from split: if_splits)
  then show ?thesis using s by (simp add: dispatch_slices_from)
qed

text \<open>
  C10, as the code has it. The dispatch loop leaves through its condition, having
  dispatched its slices, exactly when \<open>STEP\<close> is at least 1 and the platform starts the
  threads the loop asks for, \<open>IMAGE_HEIGHT\<close> divided by \<open>STEP\<close> and rounded up; \<open>STEP\<close> is at
  least 1 exactly when the reported hardware concurrency lies between 1 and
  \<open>IMAGE_HEIGHT\<close>. With \<open>STEP = 0\<close> the index never advances and the loop never leaves
  through its condition: it starts threads until the platform refuses one, and ends
  there with \<^verbatim>\<open>std::system_error\<close>. Where the loop finishes, its slices are those of
  \<open>dispatch\<close>.
\<close>

theorem dispatch_loop_ends:
  assumes "compute_STEP hc = Inr STEP"
  shows "((\<exists>ts. dispatch_limited max_threads IMAGE_HEIGHT STEP 0 [] = Inr ts)
            = (1 \<le> STEP \<and> (IMAGE_HEIGHT + STEP - 1) div STEP \<le> int max_threads))
       \<and> ((1 \<le> STEP) = (1 \<le> uint hc \<and> uint hc \<le> IMAGE_HEIGHT))
       \<and> (STEP = 0 \<longrightarrow> (\<forall>i threads. i < IMAGE_HEIGHT \<longrightarrow>
              i + STEP = i
              \<and> dispatch_limited max_threads IMAGE_HEIGHT STEP i threads = Inl ThreadCreationFailed))
       \<and> (\<forall>ts. dispatch_limited max_threads IMAGE_HEIGHT STEP 0 [] = Inr ts
              \<longrightarrow> dispatch IMAGE_HEIGHT STEP 0 [] = Some ts)"
proof -
  have hc: "hc \<noteq> 0" using assms by (auto simp: compute_STEP_def)
  then have S: "STEP = IMAGE_HEIGHT div uint hc" using assms by (simp add: compute_STEP_eq)
  have h: "0 < IMAGE_HEIGHT" by (simp add: IMAGE_HEIGHT_def)
  have 1: "(\<exists>ts. dispatch_limited max_threads IMAGE_HEIGHT STEP 0 [] = Inr ts)
            = (1 \<le> STEP \<and> (IMAGE_HEIGHT + STEP - 1) div STEP \<le> int max_threads)"
    by (rule dispatch_limited_returns_iff[OF h])
  have 2: "(1 \<le> STEP) = (1 \<le> uint hc \<and> uint hc \<le> IMAGE_HEIGHT)"
    unfolding S using STEP_pos_iff[OF uint_pos[OF hc]] uint_pos[OF hc] by simp
  have 3: "STEP = 0 \<longrightarrow> (\<forall>i threads. i < IMAGE_HEIGHT \<longrightarrow>
              i + STEP = i
              \<and> dispatch_limited max_threads IMAGE_HEIGHT STEP i threads = Inl ThreadCreationFailed)"
    by (simp add: dispatch_limited_stuck)
  have 4: "\<forall>ts. dispatch_limited max_threads IMAGE_HEIGHT STEP 0 [] = Inr ts
              \<longrightarrow> dispatch IMAGE_HEIGHT STEP 0 [] = Some ts"
    using dispatch_limited_dispatch[OF _ h] by blast
  from 1 2 3 4 show ?thesis by (intro conjI)
qed

theorem dispatch_loop_ends_witness:
  "compute_STEP 4 = Inr 135
   \<and> (\<exists>ts. dispatch_limited 32713 IMAGE_HEIGHT 135 0 [] = Inr ts)
   \<and> compute_STEP 541 = Inr 0
   \<and> dispatch_limited 32713 IMAGE_HEIGHT 0 0 [] = Inl ThreadCreationFailed"
proof -
  have a: "compute_STEP 4 = Inr 135" by (simp add: compute_STEP_eq IMAGE_HEIGHT_def)
  have b: "compute_STEP 541 = Inr 0" by (simp add: compute_STEP_eq IMAGE_HEIGHT_def)
  have c: "(0::int) < IMAGE_HEIGHT" by (simp add: IMAGE_HEIGHT_def)
  have d: "(1::int) \<le> 135 \<and> (IMAGE_HEIGHT + 135 - 1) div 135 \<le> int 32713"
    by (simp add: IMAGE_HEIGHT_def)
  have "\<exists>ts. dispatch_limited 32713 IMAGE_HEIGHT 135 0 [] = Inr ts"
    using dispatch_loop_ends[OF a, of 32713, THEN conjunct1] d by (rule iffD2)
  moreover have "dispatch_limited 32713 IMAGE_HEIGHT 0 0 [] = Inl ThreadCreationFailed"
    using dispatch_loop_ends[OF b, of 32713, THEN conjunct2, THEN conjunct2, THEN conjunct1] c
    by simp
  ultimately show ?thesis using a b by (intro conjI)
qed

text \<open>
  C10 as stated fails for 541 reported hardware threads on a platform that starts
  32713 threads: \<open>STEP\<close> is 0, and the loop does not run forever but ends with the failure
  to start a further thread.
\<close>

theorem dispatch_loop_counterexample:
  "compute_STEP 541 = Inr 0
   \<and> dispatch_limited 32713 IMAGE_HEIGHT 0 0 [] = Inl ThreadCreationFailed"
  by (simp add: compute_STEP_eq IMAGE_HEIGHT_def dispatch_limited_stuck)

section \<open>The palette\<close>

lemma fl_approx:
  assumes "\<bar>q\<bar> < 2 ^ 12"
  shows "approx (fl q) q (1 / 2 ^ 42)"
proof (cases "q = 0")
  case True
  then show ?thesis by (simp add: approx_def)
next
  case False
  have b: "\<bar>q\<bar> < 2 powi 12" using assms by simp
  have "\<bar>round_to (ulp q) q - q\<bar> \<le> 2 powi (max (12 - 1) (- 1022) - 53)"
    by (rule fl_finite(2)[OF False b]) simp
  moreover have "(2::real) powi (max (12 - 1) (- 1022) - 53) = 1 / 2 ^ 42"
    by (simp add: power_int_minus_divide)
  moreover have "fl q = Finite (round_to (ulp q) q)" by (rule fl_finite(1)[OF False b]) simp
  ultimately show ?thesis by (simp add: approx_def)
qed

lemma approx_Finite: "approx (Finite c) c 0"
  by (simp add: approx_def)

lemma double_of_int_numeral [simp]:
  "(numeral k :: int) < 2 ^ 53 \<Longrightarrow> double_of_int (numeral k) = Finite (numeral k)"
  by (simp add: double_of_int_def)

lemma double_of_int_0 [simp]: "double_of_int 0 = Finite 0"
  by (simp add: double_of_int_def)

lemma double_of_int_1 [simp]: "double_of_int 1 = Finite 1"
  by (simp add: double_of_int_def)

lemma double_of_int_small: "\<bar>i\<bar> < 2 ^ 53 \<Longrightarrow> double_of_int i = Finite (of_int i)"
  by (simp add: double_of_int_def fl_of_int)

lemma approx_dmul:
  assumes a: "approx a x da" and b: "approx b y db"
    and X: "\<bar>x\<bar> \<le> X" and Y: "\<bar>y\<bar> \<le> Y"
    and r: "(X + da) * (Y + db) < 2 ^ 12"
    and d: "da * (Y + db) + X * db + 1 / 2 ^ 42 \<le> d"
  shows "approx (dmul a b) (x * y) d"
proof -
  from a obtain ra where ra: "a = Finite ra" "\<bar>ra - x\<bar> \<le> da" by (auto simp: approx_def)
  from b obtain rb where rb: "b = Finite rb" "\<bar>rb - y\<bar> \<le> db" by (auto simp: approx_def)
  have da0: "0 \<le> da" and db0: "0 \<le> db" using ra(2) rb(2) by linarith+
  have X0: "0 \<le> X" and Y0: "0 \<le> Y" using X Y by linarith+
  have A: "\<bar>ra\<bar> \<le> X + da" using ra(2) X by linarith
  have B: "\<bar>rb\<bar> \<le> Y + db" using rb(2) Y by linarith
  have "\<bar>ra * rb\<bar> \<le> (X + da) * (Y + db)"
    unfolding abs_mult using A B by (intro mult_mono) auto
  then have "\<bar>ra * rb\<bar> < 2 ^ 12" using r by linarith
  from fl_approx[OF this] obtain p where p: "fl (ra * rb) = Finite p" "\<bar>p - ra * rb\<bar> \<le> 1 / 2 ^ 42"
    by (auto simp: approx_def)
  have "ra * rb - x * y = (ra - x) * rb + x * (rb - y)" by (simp add: algebra_simps)
  then have "\<bar>ra * rb - x * y\<bar> \<le> \<bar>(ra - x) * rb\<bar> + \<bar>x * (rb - y)\<bar>" by linarith
  also have "\<dots> \<le> da * (Y + db) + X * db"
    unfolding abs_mult using ra(2) rb(2) B X da0 db0 X0 Y0
    by (intro add_mono mult_mono) auto
  finally have "\<bar>p - x * y\<bar> \<le> da * (Y + db) + X * db + 1 / 2 ^ 42" using p(2) by linarith
  then show ?thesis using ra(1) rb(1) p(1) d by (auto simp: approx_def)
qed

lemma approx_dsub:
  assumes a: "approx a x da" and b: "approx b y db"
    and r: "\<bar>x - y\<bar> + da + db < 2 ^ 12"
    and d: "da + db + 1 / 2 ^ 42 \<le> d"
  shows "approx (dsub a b) (x - y) d"
proof -
  from a obtain ra where ra: "a = Finite ra" "\<bar>ra - x\<bar> \<le> da" by (auto simp: approx_def)
  from b obtain rb where rb: "b = Finite rb" "\<bar>rb - y\<bar> \<le> db" by (auto simp: approx_def)
  have "\<bar>ra + - rb\<bar> < 2 ^ 12" using ra(2) rb(2) r by linarith
  from fl_approx[OF this] obtain p where p: "fl (ra + - rb) = Finite p" "\<bar>p - (ra + - rb)\<bar> \<le> 1 / 2 ^ 42"
    by (auto simp: approx_def)
  have "\<bar>p - (x - y)\<bar> \<le> da + db + 1 / 2 ^ 42" using p(2) ra(2) rb(2) by linarith
  then show ?thesis using ra(1) rb(1) p(1) d by (auto simp: approx_def dsub_def)
qed

lemma palette_t_range:
  "0 \<le> i \<Longrightarrow> i \<le> kMaxIterations \<Longrightarrow> 0 \<le> palette_t i \<and> palette_t i \<le> 1"
  by (simp add: palette_t_def kMaxIterations_def)

lemma approx_GetColor_t:
  assumes "0 \<le> i" "i \<le> kMaxIterations"
  shows "approx (GetColor_t i) (palette_t i) (1 / 2 ^ 42)"
proof -
  have i: "\<bar>i\<bar> < 2 ^ 53" using assms by (simp add: kMaxIterations_def)
  have "\<bar>palette_t i\<bar> < 2 ^ 12" using palette_t_range[OF assms] by simp
  from fl_approx[OF this] show ?thesis
    by (simp add: GetColor_t_def double_of_int_small[OF i] kMaxIterations_def palette_t_def)
qed

lemma approx_nonneg: "approx a x d \<Longrightarrow> 0 \<le> d"
  by (auto simp: approx_def)

lemma approx_in_dmul:
  assumes a: "approx_in a x C da" and b: "approx_in b y 1 db"
    and C: "C \<le> 16" and s: "da \<le> 1" "db \<le> 1"
    and d: "da * (1 + db) + C * db + 1 / 2 ^ 42 \<le> d"
  shows "approx_in (dmul a b) (x * y) C d"
proof -
  have aa: "approx a x da" and x: "0 \<le> x" "x \<le> C" using a by (simp_all add: approx_in_def)
  have ab: "approx b y db" and y: "0 \<le> y" "y \<le> 1" using b by (simp_all add: approx_in_def)
  have da: "0 \<le> da" and db: "0 \<le> db" using approx_nonneg[OF aa] approx_nonneg[OF ab] by simp_all
  have "(C + da) * (1 + db) \<le> (16 + 1) * (1 + 1)"
    using C s x da db by (intro mult_mono) auto
  then have r: "(C + da) * (1 + db) < 2 ^ 12" by simp
  have "approx (dmul a b) (x * y) d"
    by (rule approx_dmul[OF aa ab _ _ r d]) (use x y in auto)
  moreover have "0 \<le> x * y" using x y by simp
  moreover have "x * y \<le> C * 1" using x y by (intro mult_mono) auto
  ultimately show ?thesis by (simp add: approx_in_def)
qed

lemma approx_in_t:
  assumes "0 \<le> i" "i \<le> kMaxIterations"
  shows "approx_in (GetColor_t i) (palette_t i) 1 (1 / 2 ^ 42)"
  using approx_GetColor_t[OF assms] palette_t_range[OF assms] by (simp add: approx_in_def)

lemma approx_in_one_minus_t:
  assumes "0 \<le> i" "i \<le> kMaxIterations"
  shows "approx_in (dsub (double_of_int 1) (GetColor_t i)) (1 - palette_t i) 1 (2 / 2 ^ 42)"
proof -
  have "approx (dsub (Finite 1) (GetColor_t i)) (1 - palette_t i) (2 / 2 ^ 42)"
    by (rule approx_dsub[OF approx_Finite approx_GetColor_t[OF assms]])
       (use palette_t_range[OF assms] in auto)
  then show ?thesis using palette_t_range[OF assms] by (simp add: approx_in_def)
qed

lemma approx_GetColor_r:
  assumes "0 \<le> i" "i \<le> kMaxIterations"
  shows "approx (GetColor_r (GetColor_t i)) (palette_r i) (1 / 2 ^ 20)"
proof -
  define T where "T = palette_t i"
  define t where "t = GetColor_t i"
  define s where "s = dsub (double_of_int 1) t"
  have bt: "approx_in t T 1 (1 / 2 ^ 42)"
    unfolding t_def T_def by (rule approx_in_t[OF assms])
  have bs: "approx_in s (1 - T) 1 (2 / 2 ^ 42)"
    unfolding s_def t_def T_def by (rule approx_in_one_minus_t[OF assms])
  have c: "approx_in (Finite 9) 9 9 0" by (simp add: approx_in_def approx_Finite)
  have 1: "approx_in (dmul (Finite 9) s) (9 * (1 - T)) 9 (32 / 2 ^ 42)"
    by (rule approx_in_dmul[OF c bs]) simp_all
  have 2: "approx_in (dmul (dmul (Finite 9) s) t) (9 * (1 - T) * T) 9 (64 / 2 ^ 42)"
    by (rule approx_in_dmul[OF 1 bt]) simp_all
  have 3: "approx_in (dmul (dmul (dmul (Finite 9) s) t) t) (9 * (1 - T) * T * T) 9 (128 / 2 ^ 42)"
    by (rule approx_in_dmul[OF 2 bt]) simp_all
  have 4: "approx_in (dmul (dmul (dmul (dmul (Finite 9) s) t) t) t) (9 * (1 - T) * T * T * T) 9 (256 / 2 ^ 42)"
    by (rule approx_in_dmul[OF 3 bt]) simp_all
  have "approx (dmul (dmul (dmul (dmul (dmul (Finite 9) s) t) t) t) (Finite 255)) (9 * (1 - T) * T * T * T * 255) (1 / 2 ^ 20)"
    by (rule approx_dmul[OF 4[unfolded approx_in_def, THEN conjunct1] approx_Finite,
          where X = "9" and Y = 255])
       (use 4 in \<open>simp_all add: approx_in_def\<close>)
  moreover have "9 * (1 - T) * T * T * T * 255 = palette_r i"
    by (simp add: palette_r_def T_def power2_eq_square power3_eq_cube)
  ultimately show ?thesis by (simp add: GetColor_r_def s_def t_def)
qed

lemma approx_GetColor_g:
  assumes "0 \<le> i" "i \<le> kMaxIterations"
  shows "approx (GetColor_g (GetColor_t i)) (palette_g i) (1 / 2 ^ 20)"
proof -
  define T where "T = palette_t i"
  define t where "t = GetColor_t i"
  define s where "s = dsub (double_of_int 1) t"
  have bt: "approx_in t T 1 (1 / 2 ^ 42)"
    unfolding t_def T_def by (rule approx_in_t[OF assms])
  have bs: "approx_in s (1 - T) 1 (2 / 2 ^ 42)"
    unfolding s_def t_def T_def by (rule approx_in_one_minus_t[OF assms])
  have c: "approx_in (Finite 15) 15 15 0" by (simp add: approx_in_def approx_Finite)
  have 1: "approx_in (dmul (Finite 15) s) (15 * (1 - T)) 15 (32 / 2 ^ 42)"
    by (rule approx_in_dmul[OF c bs]) simp_all
  have 2: "approx_in (dmul (dmul (Finite 15) s) s) (15 * (1 - T) * (1 - T)) 15 (64 / 2 ^ 42)"
    by (rule approx_in_dmul[OF 1 bs]) simp_all
  have 3: "approx_in (dmul (dmul (dmul (Finite 15) s) s) t) (15 * (1 - T) * (1 - T) * T) 15 (128 / 2 ^ 42)"
    by (rule approx_in_dmul[OF 2 bt]) simp_all
  have 4: "approx_in (dmul (dmul (dmul (dmul (Finite 15) s) s) t) t) (15 * (1 - T) * (1 - T) * T * T) 15 (256 / 2 ^ 42)"
    by (rule approx_in_dmul[OF 3 bt]) simp_all
  have "approx (dmul (dmul (dmul (dmul (dmul (Finite 15) s) s) t) t) (Finite 255)) (15 * (1 - T) * (1 - T) * T * T * 255) (1 / 2 ^ 20)"
    by (rule approx_dmul[OF 4[unfolded approx_in_def, THEN conjunct1] approx_Finite,
          where X = "15" and Y = 255])
       (use 4 in \<open>simp_all add: approx_in_def\<close>)
  moreover have "15 * (1 - T) * (1 - T) * T * T * 255 = palette_g i"
    by (simp add: palette_g_def T_def power2_eq_square power3_eq_cube)
  ultimately show ?thesis by (simp add: GetColor_g_def s_def t_def)
qed

lemma approx_GetColor_b:
  assumes "0 \<le> i" "i \<le> kMaxIterations"
  shows "approx (GetColor_b (GetColor_t i)) (palette_b i) (1 / 2 ^ 20)"
proof -
  define T where "T = palette_t i"
  define t where "t = GetColor_t i"
  define s where "s = dsub (double_of_int 1) t"
  have bt: "approx_in t T 1 (1 / 2 ^ 42)"
    unfolding t_def T_def by (rule approx_in_t[OF assms])
  have bs: "approx_in s (1 - T) 1 (2 / 2 ^ 42)"
    unfolding s_def t_def T_def by (rule approx_in_one_minus_t[OF assms])
  have c: "approx_in (Finite (17 / 2)) (17 / 2) (17 / 2) 0" by (simp add: approx_in_def approx_Finite)
  have 1: "approx_in (dmul (Finite (17 / 2)) s) ((17 / 2) * (1 - T)) (17 / 2) (32 / 2 ^ 42)"
    by (rule approx_in_dmul[OF c bs]) simp_all
  have 2: "approx_in (dmul (dmul (Finite (17 / 2)) s) s) ((17 / 2) * (1 - T) * (1 - T)) (17 / 2) (64 / 2 ^ 42)"
    by (rule approx_in_dmul[OF 1 bs]) simp_all
  have 3: "approx_in (dmul (dmul (dmul (Finite (17 / 2)) s) s) s) ((17 / 2) * (1 - T) * (1 - T) * (1 - T)) (17 / 2) (128 / 2 ^ 42)"
    by (rule approx_in_dmul[OF 2 bs]) simp_all
  have 4: "approx_in (dmul (dmul (dmul (dmul (Finite (17 / 2)) s) s) s) t) ((17 / 2) * (1 - T) * (1 - T) * (1 - T) * T) (17 / 2) (256 / 2 ^ 42)"
    by (rule approx_in_dmul[OF 3 bt]) simp_all
  have "approx (dmul (dmul (dmul (dmul (dmul (Finite (17 / 2)) s) s) s) t) (Finite 255)) ((17 / 2) * (1 - T) * (1 - T) * (1 - T) * T * 255) (1 / 2 ^ 20)"
    by (rule approx_dmul[OF 4[unfolded approx_in_def, THEN conjunct1] approx_Finite,
          where X = "(17 / 2)" and Y = 255])
       (use 4 in \<open>simp_all add: approx_in_def\<close>)
  moreover have "(17 / 2) * (1 - T) * (1 - T) * (1 - T) * T * 255 = palette_b i"
    by (simp add: palette_b_def T_def power2_eq_square power3_eq_cube)
  ultimately show ?thesis by (simp add: GetColor_b_def s_def t_def)
qed

lemma int_of_double_approx:
  assumes a: "approx a x d" and d: "d < 1" and n: "0 \<le> n" "n < 2 ^ 31"
    and x: "(x = 0 \<and> n = 0) \<or> (of_int n + d \<le> x \<and> x + d < of_int n + 1)"
  shows "int_of_double a = Inr n"
proof -
  from a obtain r where r: "a = Finite r" "\<bar>r - x\<bar> \<le> d" by (auto simp: approx_def)
  have "(if 0 \<le> r then \<lfloor>r\<rfloor> else \<lceil>r\<rceil>) = n"
  proof (cases "x = 0 \<and> n = 0")
    case True
    then have b: "- 1 < r" "r < 1" using r(2) d by auto
    show ?thesis
    proof (cases "0 \<le> r")
      case True
      then have "\<lfloor>r\<rfloor> = 0" using b by (simp add: floor_eq_iff)
      then show ?thesis using True \<open>x = 0 \<and> n = 0\<close> by simp
    next
      case False
      then have "\<lceil>r\<rceil> = 0" using b by (simp add: ceiling_eq_iff)
      then show ?thesis using False \<open>x = 0 \<and> n = 0\<close> by simp
    qed
  next
    case False
    then have "of_int n + d \<le> x" "x + d < of_int n + 1" using x by auto
    then have b: "of_int n \<le> r" "r < of_int n + 1" using r(2) by linarith+
    then have "0 \<le> r" using n(1) by (smt (verit) of_int_0_le_iff)
    moreover have "\<lfloor>r\<rfloor> = n" using b by (simp add: floor_eq_iff)
    ultimately show ?thesis by simp
  qed
  then show ?thesis using r(1) n by simp
qed

lemma entry_ok_tuple:
  "entry_ok i (r, g, b) =
     (channel_ok (2295 * (1000 - i) * i ^ 3) (10 ^ 12) (10 ^ 6) r
      \<and> channel_ok (3825 * (1000 - i) ^ 2 * i ^ 2) (10 ^ 12) (10 ^ 6) g
      \<and> channel_ok (21675 * (1000 - i) ^ 3 * i) (10 ^ 13) (10 ^ 7) b)"
  by (simp add: entry_ok_def)

lemma palette_block_0_ok: "table_ok 0 palette_block_0"
  unfolding palette_block_0_def by (simp add: entry_ok_tuple channel_ok_def)

lemma palette_block_250_ok: "table_ok 250 palette_block_250"
  unfolding palette_block_250_def by (simp add: entry_ok_tuple channel_ok_def)

lemma palette_block_500_ok: "table_ok 500 palette_block_500"
  unfolding palette_block_500_def by (simp add: entry_ok_tuple channel_ok_def)

lemma palette_block_750_ok: "table_ok 750 palette_block_750"
  unfolding palette_block_750_def by (simp add: entry_ok_tuple channel_ok_def)

lemma length_palette_blocks:
  "length palette_block_0 = 250" "length palette_block_250 = 250"
  "length palette_block_500 = 250" "length palette_block_750 = 251"
  by (simp_all add: palette_block_0_def palette_block_250_def palette_block_500_def
        palette_block_750_def)

lemma table_ok_append:
  "table_ok i (xs @ ys) = (table_ok i xs \<and> table_ok (i + int (length xs)) ys)"
  by (induction xs arbitrary: i) (auto simp: algebra_simps)

lemma palette_table_ok: "table_ok 0 palette_table"
  by (simp add: palette_table_def table_ok_append length_palette_blocks palette_block_0_ok
        palette_block_250_ok palette_block_500_ok palette_block_750_ok)

lemma length_palette_table: "length palette_table = 1001"
  by (simp add: palette_table_def length_palette_blocks)

lemma table_ok_nth: "table_ok i es \<Longrightarrow> k < length es \<Longrightarrow> entry_ok (i + int k) (es ! k)"
proof (induction es arbitrary: i k)
  case Nil
  then show ?case by simp
next
  case (Cons e es)
  show ?case
  proof (cases k)
    case 0
    with Cons.prems show ?thesis by simp
  next
    case (Suc k')
    with Cons.prems have "entry_ok (i + 1 + int k') (es ! k')" by (intro Cons.IH) auto
    then show ?thesis using Suc by (simp add: algebra_simps)
  qed
qed

lemma palette_entry_ok:
  "0 \<le> i \<Longrightarrow> i \<le> kMaxIterations \<Longrightarrow> entry_ok i (palette_table ! nat i)"
  using table_ok_nth[OF palette_table_ok, of "nat i"]
  by (simp add: length_palette_table kMaxIterations_def)

lemma palette_r_fraction: "palette_r i = of_int (2295 * (1000 - i) * i ^ 3) / 10 ^ 12"
  by (simp add: palette_r_def palette_t_def kMaxIterations_def field_simps)

lemma palette_g_fraction: "palette_g i = of_int (3825 * (1000 - i) ^ 2 * i ^ 2) / 10 ^ 12"
  by (simp add: palette_g_def palette_t_def kMaxIterations_def field_simps power2_eq_square)

lemma palette_b_fraction: "palette_b i = of_int (21675 * (1000 - i) ^ 3 * i) / 10 ^ 13"
  by (simp add: palette_b_def palette_t_def kMaxIterations_def field_simps power3_eq_cube)

lemma channel_ok_floor:
  fixes x :: real
  assumes ok: "channel_ok N D m n" and D: "0 < D" and x: "x = of_int N / of_int D"
    and m: "1 / 2 ^ 20 < real_of_int m / of_int D"
  shows "\<lfloor>x\<rfloor> = n" and "0 \<le> n" and "n \<le> 255"
    and "(x = 0 \<and> n = 0) \<or> (of_int n + 1 / 2 ^ 20 \<le> x \<and> x + 1 / 2 ^ 20 < of_int n + 1)"
proof -
  have D': "0 < real_of_int D" using D by simp
  show n: "0 \<le> n" "n \<le> 255" using ok by (simp_all add: channel_ok_def)
  consider "N = 0 \<and> n = 0" | "n * D + m \<le> N \<and> N + m \<le> n * D + D"
    using ok by (auto simp: channel_ok_def)
  then show "(x = 0 \<and> n = 0) \<or> (of_int n + 1 / 2 ^ 20 \<le> x \<and> x + 1 / 2 ^ 20 < of_int n + 1)"
  proof cases
    case 1
    then show ?thesis using x by simp
  next
    case 2
    then have "real_of_int (n * D + m) \<le> of_int N" "real_of_int (N + m) \<le> of_int (n * D + D)"
      by (simp_all only: of_int_le_iff)
    then have "(real_of_int n * real_of_int D + real_of_int m) / real_of_int D \<le> x"
      "x + real_of_int m / real_of_int D \<le> (real_of_int n * real_of_int D + real_of_int D) / real_of_int D"
      unfolding x using D' by (simp_all add: divide_right_mono add_divide_distrib[symmetric])
    then have "real_of_int n + real_of_int m / real_of_int D \<le> x"
      "x + real_of_int m / real_of_int D \<le> real_of_int n + 1"
      using D' by (simp_all add: add_divide_distrib)
    then show ?thesis using m by linarith
  qed
  then show "\<lfloor>x\<rfloor> = n"
  proof
    assume "x = 0 \<and> n = 0"
    then show ?thesis by simp
  next
    assume "of_int n + 1 / 2 ^ 20 \<le> x \<and> x + 1 / 2 ^ 20 < of_int n + 1"
    then have "of_int n \<le> x" "x < of_int n + 1" by simp_all
    then show ?thesis by (simp add: floor_eq_iff)
  qed
qed

lemma channel_value:
  fixes x :: real
  assumes a: "approx a x (1 / 2 ^ 20)" and ok: "channel_ok N D m n" and D: "0 < D"
    and x: "x = of_int N / of_int D" and m: "1 / 2 ^ 20 < real_of_int m / of_int D"
  shows "int_of_double a = Inr n \<and> \<lfloor>x\<rfloor> = n \<and> 0 \<le> n \<and> n \<le> 255"
proof -
  note f = channel_ok_floor[OF ok D x m]
  have "int_of_double a = Inr n"
    by (rule int_of_double_approx[OF a _ f(2) _ f(4)]) (use f(3) in simp_all)
  then show ?thesis using f by simp
qed

lemma GetColor_rgb_table:
  assumes "0 \<le> i" "i \<le> kMaxIterations"
  shows "GetColor_rgb i = Inr (palette_table ! nat i)"
    and "palette_table ! nat i = (\<lfloor>palette_r i\<rfloor>, \<lfloor>palette_g i\<rfloor>, \<lfloor>palette_b i\<rfloor>)"
    and "0 \<le> \<lfloor>palette_r i\<rfloor> \<and> \<lfloor>palette_r i\<rfloor> \<le> 255"
    and "0 \<le> \<lfloor>palette_g i\<rfloor> \<and> \<lfloor>palette_g i\<rfloor> \<le> 255"
    and "0 \<le> \<lfloor>palette_b i\<rfloor> \<and> \<lfloor>palette_b i\<rfloor> \<le> 255"
proof -
  obtain r g b where e: "palette_table ! nat i = (r, g, b)" by (cases "palette_table ! nat i") auto
  have ok: "entry_ok i (r, g, b)" using palette_entry_ok[OF assms] e by simp
  have okr: "channel_ok (2295 * (1000 - i) * i ^ 3) (10 ^ 12) (10 ^ 6) r"
    using ok[unfolded entry_ok_def fst_conv snd_conv] by (elim conjE)
  have xr: "palette_r i = real_of_int (2295 * (1000 - i) * i ^ 3) / real_of_int (10 ^ 12)"
    by (simp add: palette_r_fraction)
  have R: "int_of_double (GetColor_r (GetColor_t i)) = Inr r \<and> \<lfloor>palette_r i\<rfloor> = r \<and> 0 \<le> r \<and> r \<le> 255"
    by (rule channel_value[OF approx_GetColor_r[OF assms] okr _ xr]) simp_all
  have okg: "channel_ok (3825 * (1000 - i) ^ 2 * i ^ 2) (10 ^ 12) (10 ^ 6) g"
    using ok[unfolded entry_ok_def fst_conv snd_conv] by (elim conjE)
  have xg: "palette_g i = real_of_int (3825 * (1000 - i) ^ 2 * i ^ 2) / real_of_int (10 ^ 12)"
    by (simp add: palette_g_fraction)
  have G: "int_of_double (GetColor_g (GetColor_t i)) = Inr g \<and> \<lfloor>palette_g i\<rfloor> = g \<and> 0 \<le> g \<and> g \<le> 255"
    by (rule channel_value[OF approx_GetColor_g[OF assms] okg _ xg]) simp_all
  have okb: "channel_ok (21675 * (1000 - i) ^ 3 * i) (10 ^ 13) (10 ^ 7) b"
    using ok[unfolded entry_ok_def fst_conv snd_conv] by (elim conjE)
  have xb: "palette_b i = real_of_int (21675 * (1000 - i) ^ 3 * i) / real_of_int (10 ^ 13)"
    by (simp add: palette_b_fraction)
  have B: "int_of_double (GetColor_b (GetColor_t i)) = Inr b \<and> \<lfloor>palette_b i\<rfloor> = b \<and> 0 \<le> b \<and> b \<le> 255"
    by (rule channel_value[OF approx_GetColor_b[OF assms] okb _ xb]) simp_all
  show "GetColor_rgb i = Inr (palette_table ! nat i)" using R G B e by (simp add: GetColor_rgb_def)
  show "palette_table ! nat i = (\<lfloor>palette_r i\<rfloor>, \<lfloor>palette_g i\<rfloor>, \<lfloor>palette_b i\<rfloor>)"
    using R G B e by simp
  show "0 \<le> \<lfloor>palette_r i\<rfloor> \<and> \<lfloor>palette_r i\<rfloor> \<le> 255" using R by simp
  show "0 \<le> \<lfloor>palette_g i\<rfloor> \<and> \<lfloor>palette_g i\<rfloor> \<le> 255" using G by simp
  show "0 \<le> \<lfloor>palette_b i\<rfloor> \<and> \<lfloor>palette_b i\<rfloor> \<le> 255" using B by simp
qed

lemma GetColor_table:
  assumes "0 \<le> i" "i \<le> kMaxIterations"
  shows "GetColor i = Inr (color_of (palette_table ! nat i))"
  by (cases "palette_table ! nat i")
     (simp add: GetColor_def GetColor_rgb_table(1)[OF assms] color_of_def)

lemma GetColor_the_palette:
  assumes "0 \<le> i" "i \<le> kMaxIterations"
  shows "GetColor i = Inr (colors the_palette ! nat i)"
  using assms by (simp add: GetColor_table the_palette_def length_palette_table kMaxIterations_def)

lemma Mandelbrot_loop_fills:
  "0 \<le> j \<Longrightarrow> length cs = 1001 \<Longrightarrow>
   Mandelbrot_loop j cs = Inr (take (nat j) cs @ drop (nat j) (map color_of palette_table))"
proof (induction "1001 - nat j" arbitrary: j cs)
  case 0
  then have "\<not> j \<le> kMaxIterations" by (simp add: kMaxIterations_def)
  then show ?case using 0 by (subst Mandelbrot_loop.simps) (simp add: length_palette_table)
next
  case (Suc d)
  define M where "M = map color_of palette_table"
  have j: "j \<le> kMaxIterations" using Suc.hyps(2) Suc.prems by (simp add: kMaxIterations_def)
  have n: "nat j < 1001" using Suc.hyps(2) by simp
  have lM: "length M = 1001" by (simp add: M_def length_palette_table)
  have g: "GetColor j = Inr (M ! nat j)"
    using GetColor_table[OF Suc.prems(1) j] n by (simp add: M_def length_palette_table)
  have "Mandelbrot_loop (j + 1) (cs[nat j := M ! nat j])
          = Inr (take (nat (j + 1)) (cs[nat j := M ! nat j]) @ drop (nat (j + 1)) M)"
    unfolding M_def using Suc.hyps(2) Suc.prems by (intro Suc.hyps(1)) auto
  moreover have "nat (j + 1) = Suc (nat j)" using Suc.prems(1) by simp
  moreover have "take (Suc (nat j)) (cs[nat j := M ! nat j]) = take (nat j) cs @ [M ! nat j]"
    using n Suc.prems(2) by (simp add: take_Suc_conv_app_nth)
  moreover have "drop (nat j) M = M ! nat j # drop (Suc (nat j)) M"
    using n lM by (simp add: Cons_nth_drop_Suc)
  ultimately have "Mandelbrot_loop (j + 1) (cs[nat j := M ! nat j])
          = Inr (take (nat j) cs @ drop (nat j) M)" by simp
  then show ?case using j g unfolding M_def by (subst Mandelbrot_loop.simps) simp
qed

lemma Mandelbrot_new_the_palette: "Mandelbrot_new = Inr the_palette"
  using Mandelbrot_loop_fills[of 0 "replicate (nat (kMaxIterations + 1)) (Color 0 0 0 255)"]
  by (simp add: Mandelbrot_new_def the_palette_def kMaxIterations_def)

lemma length_the_palette: "length (colors the_palette) = nat (kMaxIterations + 1)"
  by (simp add: the_palette_def length_palette_table kMaxIterations_def)

lemma uint8_of_channel: "0 \<le> n \<Longrightarrow> n \<le> 255 \<Longrightarrow> uint (word_of_int n :: 8 word) = n"
  by (simp add: uint_word_of_int)

lemma palette_boundary:
  "palette_r 0 = 0" "palette_g 0 = 0" "palette_b 0 = 0"
  "palette_r kMaxIterations = 0" "palette_g kMaxIterations = 0" "palette_b kMaxIterations = 0"
  by (simp_all add: palette_r_def palette_g_def palette_b_def palette_t_def kMaxIterations_def)

text \<open>
  C8. For every \<open>i\<close> from 0 to \<open>kMaxIterations\<close> the values \<open>r\<close>, \<open>g\<close>, \<open>b\<close> that \<^verbatim>\<open>GetColor\<close>
  computes in binary64 are the floors of the three polynomials at \<open>t = i / kMaxIterations\<close>
  taken in exact arithmetic; each lies between 0 and 255, so that the conversion to
  \<^verbatim>\<open>Uint8\<close> stores it unchanged; the constructor stores these colours in \<^verbatim>\<open>colors[i]\<close>; and
  at \<open>t = 0\<close> and \<open>t = 1\<close> the polynomials are 0 and the stored channels are 0.
\<close>

theorem palette_channels:
  assumes "0 \<le> i" and "i \<le> kMaxIterations"
  shows "GetColor_rgb i = Inr (\<lfloor>palette_r i\<rfloor>, \<lfloor>palette_g i\<rfloor>, \<lfloor>palette_b i\<rfloor>)
     \<and> 0 \<le> \<lfloor>palette_r i\<rfloor> \<and> \<lfloor>palette_r i\<rfloor> \<le> 255
     \<and> 0 \<le> \<lfloor>palette_g i\<rfloor> \<and> \<lfloor>palette_g i\<rfloor> \<le> 255
     \<and> 0 \<le> \<lfloor>palette_b i\<rfloor> \<and> \<lfloor>palette_b i\<rfloor> \<le> 255
     \<and> (\<exists>mb. Mandelbrot_new = Inr mb
           \<and> length (colors mb) = nat (kMaxIterations + 1)
           \<and> GetColor i = Inr (colors mb ! nat i)
           \<and> uint (red (colors mb ! nat i)) = \<lfloor>palette_r i\<rfloor>
           \<and> uint (green (colors mb ! nat i)) = \<lfloor>palette_g i\<rfloor>
           \<and> uint (blue (colors mb ! nat i)) = \<lfloor>palette_b i\<rfloor>
           \<and> alpha (colors mb ! nat i) = 255)
     \<and> (i = 0 \<or> i = kMaxIterations \<longrightarrow>
           palette_r i = 0 \<and> palette_g i = 0 \<and> palette_b i = 0
           \<and> GetColor_rgb i = Inr (0, 0, 0))"
proof -
  note t = GetColor_rgb_table[OF assms]
  have rgb: "GetColor_rgb i = Inr (\<lfloor>palette_r i\<rfloor>, \<lfloor>palette_g i\<rfloor>, \<lfloor>palette_b i\<rfloor>)"
    using t(1,2) by simp
  have n: "nat i < length palette_table"
    using assms by (simp add: length_palette_table kMaxIterations_def)
  have c: "colors the_palette ! nat i
      = Color (word_of_int \<lfloor>palette_r i\<rfloor>) (word_of_int \<lfloor>palette_g i\<rfloor>)
          (word_of_int \<lfloor>palette_b i\<rfloor>) 255"
    using n t(2) by (simp add: the_palette_def color_of_def)
  have mb: "\<exists>mb. Mandelbrot_new = Inr mb
           \<and> length (colors mb) = nat (kMaxIterations + 1)
           \<and> GetColor i = Inr (colors mb ! nat i)
           \<and> uint (red (colors mb ! nat i)) = \<lfloor>palette_r i\<rfloor>
           \<and> uint (green (colors mb ! nat i)) = \<lfloor>palette_g i\<rfloor>
           \<and> uint (blue (colors mb ! nat i)) = \<lfloor>palette_b i\<rfloor>
           \<and> alpha (colors mb ! nat i) = 255"
  proof (intro exI[of _ the_palette] conjI)
    show "Mandelbrot_new = Inr the_palette" by (rule Mandelbrot_new_the_palette)
    show "length (colors the_palette) = nat (kMaxIterations + 1)" by (rule length_the_palette)
    show "GetColor i = Inr (colors the_palette ! nat i)" by (rule GetColor_the_palette[OF assms])
    show "uint (red (colors the_palette ! nat i)) = \<lfloor>palette_r i\<rfloor>"
      using t(3) by (simp add: c uint8_of_channel)
    show "uint (green (colors the_palette ! nat i)) = \<lfloor>palette_g i\<rfloor>"
      using t(4) by (simp add: c uint8_of_channel)
    show "uint (blue (colors the_palette ! nat i)) = \<lfloor>palette_b i\<rfloor>"
      using t(5) by (simp add: c uint8_of_channel)
    show "alpha (colors the_palette ! nat i) = 255" by (simp add: c)
  qed
  have b: "i = 0 \<or> i = kMaxIterations \<longrightarrow>
           palette_r i = 0 \<and> palette_g i = 0 \<and> palette_b i = 0
           \<and> GetColor_rgb i = Inr (0, 0, 0)"
    using rgb palette_boundary by auto
  show ?thesis using rgb t(3,4,5) mb b by (intro conjI) simp_all
qed

lemma palette_500:
  "\<lfloor>palette_r 500\<rfloor> = 143" "\<lfloor>palette_g 500\<rfloor> = 239" "\<lfloor>palette_b 500\<rfloor> = 135"
  by (simp_all add: palette_r_def palette_g_def palette_b_def palette_t_def kMaxIterations_def
      power_one_over)

theorem palette_channels_witness:
  "(0::int) \<le> 500 \<and> 500 \<le> kMaxIterations \<and> GetColor_rgb 500 = Inr (143, 239, 135)"
proof -
  have a: "(0::int) \<le> 500" and b: "500 \<le> kMaxIterations" by (simp_all add: kMaxIterations_def)
  have "GetColor_rgb 500 = Inr (\<lfloor>palette_r 500\<rfloor>, \<lfloor>palette_g 500\<rfloor>, \<lfloor>palette_b 500\<rfloor>)"
    by (rule palette_channels[OF a b, THEN conjunct1])
  then show ?thesis using a b by (simp add: palette_500)
qed

end
